theory Spec2Isabelle
  imports Complex_Main
begin

section \<open>Python strings\<close>

text \<open>
  A Python \<open>str\<close> is a sequence of Unicode code points, and \<open>len\<close>, slicing and
  \<open>splitlines\<close> count code points. A string is therefore a list of code points
  (natural numbers); \<open>ascii\<close> writes a literal.
\<close>

type_synonym pystr = "nat list"

definition ascii :: "string \<Rightarrow> pystr" where
  "ascii s = map of_char s"

text \<open>The horizontal ellipsis U+2026 that \<open>_shopping_search\<close> appends.\<close>

definition ELLIPSIS :: nat where
  "ELLIPSIS = 8230"

text \<open>
  \<open>str.isspace\<close> on one code point: the characters \<open>str.strip()\<close> removes.
\<close>

definition isspace :: "nat \<Rightarrow> bool" where
  "isspace c = ((9 \<le> c \<and> c \<le> 13) \<or> (28 \<le> c \<and> c \<le> 32) \<or> c = 133 \<or> c = 160
      \<or> c = 5760 \<or> (8192 \<le> c \<and> c \<le> 8202) \<or> c = 8232 \<or> c = 8233
      \<or> c = 8239 \<or> c = 8287 \<or> c = 12288)"

definition lstrip :: "pystr \<Rightarrow> pystr" where
  "lstrip s = dropWhile isspace s"

definition rstrip :: "pystr \<Rightarrow> pystr" where
  "rstrip s = rev (dropWhile isspace (rev s))"

definition strip :: "pystr \<Rightarrow> pystr" where
  "strip s = rstrip (lstrip s)"

text \<open>
  \<open>str.lower\<close>, code point by code point, for ASCII and Latin-1 (U+00D7 is the
  multiplication sign, not a letter). Code points above U+00FF are left as they are:
  none of them lowercases to a letter of \<open>yes\<close> or \<open>none\<close>, the only strings the
  program compares a lowercased text with.
\<close>

definition lower_cp :: "nat \<Rightarrow> nat" where
  "lower_cp c =
     (if 65 \<le> c \<and> c \<le> 90 then c + 32
      else if c = 215 then c
      else if 192 \<le> c \<and> c \<le> 222 then c + 32
      else c)"

definition lower :: "pystr \<Rightarrow> pystr" where
  "lower s = map lower_cp s"

text \<open>\<open>s.endswith(suf)\<close>.\<close>

definition endswith :: "pystr \<Rightarrow> pystr \<Rightarrow> bool" where
  "endswith s suf = (length suf \<le> length s \<and> drop (length s - length suf) s = suf)"

text \<open>
  The line boundaries of \<open>str.splitlines\<close>: LF, VT, FF, CR, FS, GS, RS, NEL, LS and
  PS; CR LF is one boundary.
\<close>

definition is_linebreak :: "nat \<Rightarrow> bool" where
  "is_linebreak c = ((10 \<le> c \<and> c \<le> 13) \<or> (28 \<le> c \<and> c \<le> 30) \<or> c = 133
      \<or> c = 8232 \<or> c = 8233)"

text \<open>
  \<open>str.splitlines()\<close>: the first argument is the line read so far. A boundary closes
  the line; the text after the last boundary is a line only when it is not empty.
\<close>

fun splitlines_from :: "pystr \<Rightarrow> pystr \<Rightarrow> pystr list" where
  "splitlines_from cur [] = (if cur = [] then [] else [cur])"
| "splitlines_from cur (c # cs) =
     (if c = 13 then
        (case cs of
           [] \<Rightarrow> [cur]
         | d # ds \<Rightarrow> if d = 10 then cur # splitlines_from [] ds
                     else cur # splitlines_from [] cs)
      else if is_linebreak c then cur # splitlines_from [] cs
      else splitlines_from (cur @ [c]) cs)"

definition splitlines :: "pystr \<Rightarrow> pystr list" where
  "splitlines s = splitlines_from [] s"

text \<open>
  \<open>s.split(":", 1)\<close>: the whole string when it has no colon, else the text before the
  first colon and the text after it.
\<close>

definition split_colon1 :: "pystr \<Rightarrow> pystr list" where
  "split_colon1 s =
     (if 58 \<in> set s
      then [takeWhile (\<lambda>c. c \<noteq> 58) s, tl (dropWhile (\<lambda>c. c \<noteq> 58) s)]
      else [s])"

text \<open>\<open>sep.join(xs)\<close>.\<close>

fun join :: "pystr \<Rightarrow> pystr list \<Rightarrow> pystr" where
  "join sep [] = []"
| "join sep [x] = x"
| "join sep (x # y # ys) = x @ sep @ join sep (y # ys)"

text \<open>The slice \<open>xs[-n:]\<close> for a positive \<open>n\<close>: the last \<open>n\<close> elements, or all of them.\<close>

definition last_n :: "nat \<Rightarrow> 'a list \<Rightarrow> 'a list" where
  "last_n n xs = drop (length xs - n) xs"

section \<open>Errors\<close>

text \<open>
  The exceptions the program can meet: a failure of one of the two external services,
  the errors Python raises on a bad index, key, attribute or operand type, and the error
  of writing a character the console has no code for.
\<close>

datatype error =
    ProviderError string
  | IndexError
  | KeyError
  | TypeError
  | AttributeError
  | UnicodeEncodeError

section \<open>The console\<close>

text \<open>
  \<open>DEBUG\<close> is \<open>True\<close> in the source, so every \<open>print\<close> under \<open>if DEBUG\<close> runs. The
  console is \<open>sys.stdout\<close> as \<open>print\<close> sees it: for the text to write, the exception
  the write raises (UnicodeEncodeError when the encoding of the stream has no code for a
  character of the text), or \<open>None\<close> when the text is written.
\<close>

type_synonym console = "pystr \<Rightarrow> error option"

text \<open>\<open>print(text)\<close>: the text and a newline are written.\<close>

definition py_print :: "console \<Rightarrow> pystr \<Rightarrow> error + unit" where
  "py_print out text = (case out (text @ [10]) of Some e \<Rightarrow> Inl e | None \<Rightarrow> Inr ())"

section \<open>The coherence verdict\<close>

text \<open>
  \<open>xs[i]\<close> on a list, for an index \<open>i \<ge> 0\<close>: IndexError when out of range.
\<close>

definition item_at :: "'a list \<Rightarrow> nat \<Rightarrow> error + 'a" where
  "item_at xs i = (if i < length xs then Inr (xs ! i) else Inl IndexError)"

text \<open>\<open>line.split(":", 1)[1].strip()\<close>.\<close>

definition after_colon :: "pystr \<Rightarrow> error + pystr" where
  "after_colon line =
     (case item_at (split_colon1 line) 1 of
        Inl e \<Rightarrow> Inl e
      | Inr field \<Rightarrow> Inr (strip field))"

text \<open>
  Lines 90 to 94 of \<open>_judge_topic\<close>: the parsing of the judge's raw response. The three
  assignments run in order, so an exception of \<open>topic\<close> comes before one of \<open>ps\<close>.
\<close>

definition parse_verdict :: "pystr \<Rightarrow> error + (bool \<times> pystr \<times> pystr)" where
  "parse_verdict raw =
     (let lines = splitlines raw;
          related = (if lines \<noteq> [] then endswith (lower (strip (lines ! 0))) (ascii ''yes'')
                     else False)
      in case (if length lines > 1 then after_colon (lines ! 1) else Inr (ascii ''None'')) of
           Inl e \<Rightarrow> Inl e
         | Inr topic \<Rightarrow>
             (case (if length lines > 2 then after_colon (lines ! 2) else Inr (ascii ''None'')) of
                Inl e \<Rightarrow> Inl e
              | Inr ps \<Rightarrow> Inr (related, topic, ps)))"

section \<open>The text-generation gateway\<close>

datatype role = System | User | Assistant

type_synonym message = "role \<times> pystr"

text \<open>
  The language-model service, as \<open>_stream_chat\<close> sees it: for a message list, a
  temperature and a token limit, either an exception (raised when the request is made or
  while the stream is read) or the \<open>delta.content\<close> of every chunk of the stream, in
  order (\<open>None\<close> for a chunk without content). The temperature is a float literal in the
  source (0.7, 0.2) and only passed on; here it is the rational number.
\<close>

type_synonym llm_service = "message list \<Rightarrow> rat \<Rightarrow> nat \<Rightarrow> error + pystr option list"

definition GPT_MAX_TOKENS :: nat where
  "GPT_MAX_TOKENS = 800"

definition MAX_BUFFER_SIZE :: nat where
  "MAX_BUFFER_SIZE = 100"

text \<open>The loop of \<open>_stream_chat\<close>: a chunk's content is kept when it is truthy.\<close>

fun collect_parts :: "pystr option list \<Rightarrow> pystr list" where
  "collect_parts [] = []"
| "collect_parts (None # cs) = collect_parts cs"
| "collect_parts (Some c # cs) = (if c = [] then collect_parts cs else c # collect_parts cs)"

definition stream_chat :: "llm_service \<Rightarrow> message list \<Rightarrow> rat \<Rightarrow> nat \<Rightarrow> error + pystr" where
  "stream_chat service messages temperature max_tokens =
     (case service messages temperature max_tokens of
        Inl e \<Rightarrow> Inl e
      | Inr chunks \<Rightarrow> Inr (strip (join [] (collect_parts chunks))))"

definition judge_sys_msg :: pystr where
  "judge_sys_msg =
     ascii ''Determine whether the last 4 Q&A pairs share one topic and suggest a product or service.''
     @ [10, 10] @ ascii ''If yes, respond exactly:'' @ [10]
     @ ascii ''RELATED: yes'' @ [10] @ ascii ''TOPIC: <topic>'' @ [10] @ ascii ''P/S: <product>''
     @ [10, 10] @ ascii ''Else respond exactly:'' @ [10]
     @ ascii ''RELATED: no'' @ [10] @ ascii ''TOPIC: None'' @ [10] @ ascii ''P/S: None''"

text \<open>Line 89: the text \<open>_judge_topic\<close> prints.\<close>

definition judge_debug_text :: "pystr \<Rightarrow> pystr" where
  "judge_debug_text raw = [10] @ ascii ''[DEBUG] judge_topic raw:'' @ [10] @ raw"

text \<open>
  \<open>_judge_topic\<close>: the request to the service, the print of the raw response, then the
  parsing. None of them is inside a \<open>try\<close>, so an exception of any leaves the method.
\<close>

definition judge_topic ::
  "llm_service \<Rightarrow> console \<Rightarrow> pystr \<Rightarrow> error + (bool \<times> pystr \<times> pystr)" where
  "judge_topic service out snapshot =
     (case stream_chat service
             [(System, judge_sys_msg), (User, snapshot @ [10] @ ascii ''RELATED:'')]
             (2 / 10) 256 of
        Inl e \<Rightarrow> Inl e
      | Inr raw \<Rightarrow>
          (case py_print out (judge_debug_text raw) of
             Inl e \<Rightarrow> Inl e
           | Inr _ \<Rightarrow> parse_verdict raw))"

section \<open>Product lookup\<close>

text \<open>
  What \<open>get_dict()\<close> returns is decoded JSON: any of these values. A JSON number is
  \<open>PNum\<close>; a float behaves here as an integer does, since the lookup only tests a number
  for being zero and every other use of it raises TypeError.
\<close>

datatype pyval =
    PNone
  | PBool bool
  | PNum int
  | PStr pystr
  | PList "pyval list"
  | PDict "(pystr \<times> pyval) list"

text \<open>Python's truth value of an object.\<close>

fun truthy :: "pyval \<Rightarrow> bool" where
  "truthy PNone = False"
| "truthy (PBool b) = b"
| "truthy (PNum n) = (n \<noteq> 0)"
| "truthy (PStr s) = (s \<noteq> [])"
| "truthy (PList xs) = (xs \<noteq> [])"
| "truthy (PDict kvs) = (kvs \<noteq> [])"

text \<open>\<open>a or b\<close>.\<close>

definition py_or :: "pyval \<Rightarrow> pyval \<Rightarrow> pyval" where
  "py_or a b = (if truthy a then a else b)"

text \<open>
  \<open>x.get(key, default)\<close>: only a dict has the method; \<open>x.get(key)\<close> is the call with
  the default \<open>None\<close>. A dict is the list of its items; its keys are distinct.
\<close>

fun dict_get :: "pyval \<Rightarrow> pystr \<Rightarrow> pyval \<Rightarrow> error + pyval" where
  "dict_get (PDict kvs) key dflt = (case map_of kvs key of None \<Rightarrow> Inr dflt | Some v \<Rightarrow> Inr v)"
| "dict_get _ key dflt = Inl AttributeError"

text \<open>
  \<open>x[0]\<close>: the first element of a list, the first character of a string; a JSON dict
  has string keys only, so \<open>0\<close> is a missing key; nothing else can be subscripted.
\<close>

fun subscript0 :: "pyval \<Rightarrow> error + pyval" where
  "subscript0 (PList xs) = item_at xs 0"
| "subscript0 (PStr s) = (case s of [] \<Rightarrow> Inl IndexError | c # _ \<Rightarrow> Inr (PStr [c]))"
| "subscript0 (PDict kvs) = Inl KeyError"
| "subscript0 _ = Inl TypeError"

text \<open>
  \<open>x[:160]\<close>: a string or a list can be sliced; a slice is no key of a dict (TypeError
  up to Python 3.11, KeyError from 3.12: an \<open>Exception\<close> in both).
\<close>

fun slice160 :: "pyval \<Rightarrow> error + pyval" where
  "slice160 (PStr s) = Inr (PStr (take 160 s))"
| "slice160 (PList xs) = Inr (PList (take 160 xs))"
| "slice160 _ = Inl TypeError"

text \<open>\<open>x + "\<dots>"\<close> with the ellipsis as right operand: defined for a string only.\<close>

fun add_ellipsis :: "pyval \<Rightarrow> error + pystr" where
  "add_ellipsis (PStr s) = Inr (s @ [ELLIPSIS])"
| "add_ellipsis _ = Inl TypeError"

text \<open>Sequencing of steps that may raise.\<close>

definition and_then :: "error + 'a \<Rightarrow> ('a \<Rightarrow> error + 'b) \<Rightarrow> error + 'b" where
  "and_then r f = (case r of Inl e \<Rightarrow> Inl e | Inr x \<Rightarrow> f x)"

text \<open>
  The shopping-search service: for the query (the other request parameters are constants
  of the source), an exception or the decoded response.
\<close>

type_synonym search_service = "pystr \<Rightarrow> error + pyval"

record product =
  name :: pyval
  link :: pyval
  desc :: pystr

text \<open>
  Line 112, \<open>(results.get("shopping_results") or [{}])[0]\<close>: the first entry of the
  result set, the empty dict when there is none.
\<close>

definition first_entry :: "pyval \<Rightarrow> error + pyval" where
  "first_entry results =
     and_then (dict_get results (ascii ''shopping_results'') PNone) (\<lambda>found.
     subscript0 (py_or found (PList [PDict []])))"

text \<open>
  \<open>item.get(k1) or item.get(k2) or ""\<close>, the shape of lines 113 and 119: the second
  lookup runs only when the first value is falsy.
\<close>

definition get_or2 :: "pyval \<Rightarrow> pystr \<Rightarrow> pystr \<Rightarrow> error + pyval" where
  "get_or2 item k1 k2 =
     and_then (dict_get item k1 PNone) (\<lambda>v1.
     if truthy v1 then Inr v1
     else and_then (dict_get item k2 PNone) (\<lambda>v2. Inr (py_or v2 (PStr []))))"

text \<open>The body of the \<open>try\<close> of \<open>_shopping_search\<close>, lines 111 to 120.\<close>

definition shopping_search_try :: "search_service \<Rightarrow> pystr \<Rightarrow> error + product option" where
  "shopping_search_try service query =
     and_then (service query) (\<lambda>results.
     and_then (first_entry results) (\<lambda>item.
     and_then (get_or2 item (ascii ''link'') (ascii ''product_link'')) (\<lambda>lnk.
     if truthy lnk then
       and_then (dict_get item (ascii ''title'') (PStr [])) (\<lambda>title.
       and_then (get_or2 item (ascii ''snippet'') (ascii ''description'')) (\<lambda>src.
       and_then (slice160 src) (\<lambda>cut.
       and_then (add_ellipsis cut) (\<lambda>d.
       Inr (Some \<lparr>name = title, link = lnk, desc = d\<rparr>)))))
     else Inr None)))"

text \<open>Line 99: the text \<open>_shopping_search\<close> prints before its \<open>try\<close>.\<close>

definition search_debug_text :: "pystr \<Rightarrow> pystr" where
  "search_debug_text query =
     ascii ''[DEBUG] SerpApi search for: '' @ [39] @ query @ [39]"

text \<open>
  Line 123: the text the \<open>except\<close> handler prints; the hyphen of its literal is U+2011,
  and \<open>exc_text\<close> is Python's \<open>str()\<close> of the exception caught.
\<close>

definition shop_err_text :: "(error \<Rightarrow> pystr) \<Rightarrow> error \<Rightarrow> pystr" where
  "shop_err_text exc_text exc = ascii ''[shop'' @ [8209] @ ascii ''err] '' @ exc_text exc"

text \<open>
  \<open>_shopping_search\<close>: the print of line 99 is outside the \<open>try\<close>; \<open>except Exception\<close>
  catches every exception of the body, and its handler prints before it returns \<open>None\<close>.
  An exception of either print leaves the method.
\<close>

definition shopping_search ::
  "search_service \<Rightarrow> console \<Rightarrow> (error \<Rightarrow> pystr) \<Rightarrow> pystr \<Rightarrow> error + product option" where
  "shopping_search service out exc_text query =
     and_then (py_print out (search_debug_text query)) (\<lambda>_.
     case shopping_search_try service query of
       Inr r \<Rightarrow> Inr r
     | Inl exc \<Rightarrow> and_then (py_print out (shop_err_text exc_text exc)) (\<lambda>_. Inr None))"

section \<open>The orchestrator\<close>

definition TRIGGER_QS :: int where
  "TRIGGER_QS = 4"

definition SNAPSHOT_LINES :: nat where
  "SNAPSHOT_LINES = 7"

text \<open>The fields of \<open>AdRecommender\<close>; \<open>__init__\<close> gives \<open>init\<close>.\<close>

record state =
  buffer :: "pystr list"
  msg_cnt :: int

definition init :: state where
  "init = \<lparr>buffer = [], msg_cnt = 0\<rparr>"

text \<open>
  What one call of \<open>chat\<close> has to work with: the two external services as they answer
  during this call, the console, and Python's \<open>str()\<close> for a value that is not a string
  (an f-string formats a string as itself) and for an exception.
\<close>

record services =
  llm :: llm_service
  search :: search_service
  console :: console
  str_other :: "pyval \<Rightarrow> pystr"
  str_error :: "error \<Rightarrow> pystr"

definition py_str :: "services \<Rightarrow> pyval \<Rightarrow> pystr" where
  "py_str sv v = (case v of PStr s \<Rightarrow> s | _ \<Rightarrow> str_other sv v)"

text \<open>
  What one call of \<open>chat\<close> does: the answer it returns or the exception it raises, the
  object's fields afterwards, and which of the two trigger steps it took: the snapshot
  it gave to \<open>_judge_topic\<close> and the query it gave to \<open>_shopping_search\<close>, when it
  called them.
\<close>

record outcome =
  result :: "error + pystr"
  after :: state
  judged :: "pystr option"
  searched :: "pystr option"

text \<open>Lines 129 to 132: the question is appended and counted, the buffer trimmed.\<close>

definition append_question :: "state \<Rightarrow> pystr \<Rightarrow> state" where
  "append_question st user_msg =
     (let buf = buffer st @ [ascii ''Q: '' @ user_msg];
          cnt = msg_cnt st + 1
      in \<lparr>buffer = (if length buf > MAX_BUFFER_SIZE then last_n MAX_BUFFER_SIZE buf else buf),
          msg_cnt = cnt\<rparr>)"

text \<open>
  Lines 135 to 141: the loop over the even indices \<open>i\<close> with \<open>i + 1 < len\<close> takes the
  buffer two lines at a time; the line at the even index is sent as the user's, the
  next one as the assistant's, each without its first three characters.
\<close>

fun context_pairs :: "pystr list \<Rightarrow> message list" where
  "context_pairs (q # a # rest) = (User, drop 3 q) # (Assistant, drop 3 a) # context_pairs rest"
| "context_pairs _ = []"

definition chat_sys_msg :: pystr where
  "chat_sys_msg =
     ascii ''You are a helpful AI assistant. Format responses using markdown: ''
     @ ascii ''**bold** for emphasis, *italic* for subtle emphasis, `code` for terms, and lists. ''
     @ ascii ''Preserve any links exactly as provided.''"

text \<open>Lines 135 to 155: the messages of the primary request.\<close>

definition chat_messages :: "pystr list \<Rightarrow> pystr \<Rightarrow> message list" where
  "chat_messages buf user_msg =
     (System, chat_sys_msg) # context_pairs buf @ [(User, user_msg)]"

text \<open>Lines 165 to 168: the recommendation appended to the answer.\<close>

definition ad_suffix :: "services \<Rightarrow> pystr \<Rightarrow> product \<Rightarrow> pystr" where
  "ad_suffix sv topic p =
     [10, 10, 9654] @ ascii '' Because you'' @ [39] @ ascii ''ve been talking about **''
     @ topic @ ascii ''**, you might like: ['' @ py_str sv (name p) @ ascii '']('' @ py_str sv (link p)
     @ ascii '') '' @ [8212] @ ascii '' '' @ desc p"

text \<open>
  \<open>chat\<close>. The primary generation (line 144), \<open>_judge_topic\<close> (line 161) and
  \<open>_shopping_search\<close> (line 163) are not inside a \<open>try\<close>: when one raises, the call
  ends there, with the fields as they are at that point.
\<close>

definition chat :: "services \<Rightarrow> state \<Rightarrow> pystr \<Rightarrow> outcome" where
  "chat sv st user_msg =
     (let st1 = append_question st user_msg
      in case stream_chat (llm sv) (chat_messages (buffer st1) user_msg) (7 / 10) GPT_MAX_TOKENS of
           Inl e \<Rightarrow> \<lparr>result = Inl e, after = st1, judged = None, searched = None\<rparr>
         | Inr answer \<Rightarrow>
             if msg_cnt st1 = TRIGGER_QS then
               (let snapshot = join [10] (last_n SNAPSHOT_LINES (buffer st1))
                in case judge_topic (llm sv) (console sv) snapshot of
                     Inl e \<Rightarrow>
                       \<lparr>result = Inl e, after = st1, judged = Some snapshot, searched = None\<rparr>
                   | Inr (related, topic, ps) \<Rightarrow>
                       if related \<and> lower ps \<noteq> ascii ''none'' then
                         (case shopping_search (search sv) (console sv) (str_error sv) ps of
                            Inl e \<Rightarrow>
                              \<lparr>result = Inl e, after = st1,
                               judged = Some snapshot, searched = Some ps\<rparr>
                          | Inr product \<Rightarrow>
                              (let answer2 =
                                     (case product of
                                        None \<Rightarrow> answer
                                      | Some p \<Rightarrow> answer @ ad_suffix sv topic p)
                               in \<lparr>result = Inr answer2,
                                   after = \<lparr>buffer = buffer st1 @ [ascii ''A: '' @ answer2],
                                            msg_cnt = 0\<rparr>,
                                   judged = Some snapshot, searched = Some ps\<rparr>))
                       else
                         \<lparr>result = Inr answer,
                          after = \<lparr>buffer = buffer st1 @ [ascii ''A: '' @ answer], msg_cnt = 0\<rparr>,
                          judged = Some snapshot, searched = None\<rparr>)
             else
               \<lparr>result = Inr answer,
                after = \<lparr>buffer = buffer st1 @ [ascii ''A: '' @ answer], msg_cnt = msg_cnt st1\<rparr>,
                judged = None, searched = None\<rparr>)"

text \<open>
  A conversation: the calls of \<open>chat\<close> on one object, each with its message and with the
  services as they answer at that time; a caller that goes on after an exception calls
  \<open>chat\<close> again on the object as the failed call left it.
\<close>

fun run :: "state \<Rightarrow> (services \<times> pystr) list \<Rightarrow> outcome list" where
  "run st [] = []"
| "run st ((sv, m) # calls) = chat sv st m # run (after (chat sv st m)) calls"

fun final :: "state \<Rightarrow> (services \<times> pystr) list \<Rightarrow> state" where
  "final st [] = st"
| "final st ((sv, m) # calls) = final (after (chat sv st m)) calls"

text \<open>Whether a buffer line is a question or an answer, by its marker.\<close>

definition is_question :: "pystr \<Rightarrow> bool" where
  "is_question line = (take 3 line = ascii ''Q: '')"

definition is_answer :: "pystr \<Rightarrow> bool" where
  "is_answer line = (take 3 line = ascii ''A: '')"

text \<open>A buffer line that carries one of the two role markers.\<close>

definition marked :: "pystr \<Rightarrow> bool" where
  "marked line = (is_question line \<or> is_answer line)"

text \<open>
  Alternation of a list of buffer lines: \<open>alternating True\<close> when the lines at the even
  indices are questions and those at the odd indices answers, \<open>alternating False\<close> when
  it is the other way round.
\<close>

fun alternating :: "bool \<Rightarrow> pystr list \<Rightarrow> bool" where
  "alternating q [] = True"
| "alternating q (l # ls) = ((if q then is_question l else is_answer l) \<and> alternating (\<not> q) ls)"

text \<open>No call of a conversation raised.\<close>

definition no_raise :: "outcome list \<Rightarrow> bool" where
  "no_raise outs = list_all (\<lambda>out. \<not> isl (result out)) outs"

text \<open>
  The state between the calls of a conversation in which no call has raised: the counter
  is below the trigger period, every counted question is in the buffer with its answer,
  and read from the newest line backwards the buffer is answer, question, answer, ...
\<close>

definition settled :: "state \<Rightarrow> bool" where
  "settled st =
     (0 \<le> msg_cnt st \<and> msg_cnt st < TRIGGER_QS
      \<and> 2 * nat (msg_cnt st) \<le> length (buffer st)
      \<and> alternating False (rev (buffer st)))"

section \<open>The vocabulary of the claims about the lookup\<close>

text \<open>The value of a field of an entry, \<open>None\<close> when the entry has no such field.\<close>

definition field :: "pyval \<Rightarrow> pystr \<Rightarrow> pyval" where
  "field item key =
     (case item of
        PDict kvs \<Rightarrow> (case map_of kvs key of None \<Rightarrow> PNone | Some v \<Rightarrow> v)
      | _ \<Rightarrow> PNone)"

text \<open>The entries of the result set of a response; none when the provider erred.\<close>

definition result_entries :: "error + pyval \<Rightarrow> pyval list" where
  "result_entries r =
     (case r of
        Inr (PDict kvs) \<Rightarrow>
          (case map_of kvs (ascii ''shopping_results'') of
             Some (PList entries) \<Rightarrow> entries
           | _ \<Rightarrow> [])
      | _ \<Rightarrow> [])"

text \<open>An entry has a usable link: a direct link or an alternate product link.\<close>

definition usable_link :: "pyval \<Rightarrow> bool" where
  "usable_link item =
     (truthy (field item (ascii ''link'')) \<or> truthy (field item (ascii ''product_link'')))"

text \<open>
  An entry as the interface of the shopping search describes it: a dict whose title,
  link, product link, snippet and description are strings when they are present.
\<close>

definition listing_entry :: "pyval \<Rightarrow> bool" where
  "listing_entry item =
     (case item of
        PDict kvs \<Rightarrow>
          list_all (\<lambda>key. case map_of kvs key of
                             None \<Rightarrow> True
                           | Some (PStr s) \<Rightarrow> True
                           | Some _ \<Rightarrow> False)
            [ascii ''title'', ascii ''link'', ascii ''product_link'', ascii ''snippet'',
             ascii ''description'']
      | _ \<Rightarrow> False)"

text \<open>
  The provider responses the interface describes: an error, or a response dict whose
  result set is absent or a list, empty or with such an entry first.
\<close>

definition expected_response :: "error + pyval \<Rightarrow> bool" where
  "expected_response r =
     (case r of
        Inl e \<Rightarrow> True
      | Inr (PDict kvs) \<Rightarrow>
          (case map_of kvs (ascii ''shopping_results'') of
             None \<Rightarrow> True
           | Some (PList entries) \<Rightarrow>
               (case entries of [] \<Rightarrow> True | item # _ \<Rightarrow> listing_entry item)
           | Some _ \<Rightarrow> False)
      | Inr _ \<Rightarrow> False)"

text \<open>
  A well-formed Product Record: the name is a string, the link a string that is not
  empty, and the description ends with the ellipsis and has at most 161 characters.
\<close>

definition well_formed_product :: "product \<Rightarrow> bool" where
  "well_formed_product p =
     (case name p of
        PStr n \<Rightarrow>
          (case link p of
             PStr l \<Rightarrow> l \<noteq> [] \<and> endswith (desc p) [ELLIPSIS] \<and> length (desc p) \<le> 161
           | _ \<Rightarrow> False)
      | _ \<Rightarrow> False)"

section \<open>Example services\<close>

text \<open>A console that writes every text.\<close>

definition accepting_console :: console where
  "accepting_console = (\<lambda>text. None)"

text \<open>
  A console with the encoding UTF-8: it has no code for a surrogate (U+D800 to U+DFFF),
  which a Python string may hold.
\<close>

definition utf8_console :: console where
  "utf8_console text =
     (if list_ex (\<lambda>c. 55296 \<le> c \<and> c \<le> 57343) text then Some UnicodeEncodeError else None)"

text \<open>A console with the encoding ISO-8859-1: no code for a character above U+00FF.\<close>

definition latin1_console :: console where
  "latin1_console text = (if list_ex (\<lambda>c. 255 < c) text then Some UnicodeEncodeError else None)"

text \<open>
  Services that answer the same whatever the request says: one stream for the primary
  request and one for the judge's request (told apart by the token limit, 800 and 256),
  and one response of the shopping search; the console writes every text.
\<close>

definition example_llm ::
  "error + pystr option list \<Rightarrow> error + pystr option list \<Rightarrow> llm_service" where
  "example_llm primary judge =
     (\<lambda>messages temperature max_tokens. if max_tokens = 256 then judge else primary)"

definition example_services ::
  "error + pystr option list \<Rightarrow> error + pystr option list \<Rightarrow> error + pyval \<Rightarrow> services" where
  "example_services primary judge found =
     \<lparr>llm = example_llm primary judge, search = (\<lambda>query. found),
      console = accepting_console, str_other = (\<lambda>v. ascii ''?''),
      str_error = (\<lambda>e. ascii ''?'')\<rparr>"

text \<open>The model answers \<open>ok\<close>; the judge answers \<open>no\<close>; the search is down.\<close>

definition plain_services :: services where
  "plain_services =
     example_services (Inr [Some (ascii ''ok'')]) (Inr [Some (ascii ''no'')])
       (Inl (ProviderError ''down''))"

text \<open>The primary request fails.\<close>

definition failing_services :: services where
  "failing_services =
     example_services (Inl (ProviderError ''timeout'')) (Inr [Some (ascii ''no'')])
       (Inl (ProviderError ''down''))"

text \<open>The judge's stream ends after \<open>TOPIC\<close>, before the colon.\<close>

definition truncated_judge_services :: services where
  "truncated_judge_services =
     example_services (Inr [Some (ascii ''ok'')])
       (Inr [Some (ascii '' yes''), Some [10], Some (ascii ''TOPIC'')])
       (Inl (ProviderError ''down''))"

text \<open>The judge's request fails.\<close>

definition judge_down_services :: services where
  "judge_down_services =
     example_services (Inr [Some (ascii ''ok'')]) (Inl (ProviderError ''timeout''))
       (Inl (ProviderError ''down''))"

text \<open>A listing of the shopping search with one entry.\<close>

definition shoe_listing :: pyval where
  "shoe_listing =
     PDict [(ascii ''shopping_results'',
       PList [PDict [(ascii ''title'', PStr (ascii ''TrailBlazer X'')),
                     (ascii ''product_link'', PStr (ascii ''https://shop.example/tb'')),
                     (ascii ''snippet'', PStr []),
                     (ascii ''description'', PStr (ascii ''Light trail shoe''))]])]"

text \<open>A response with an empty result set.\<close>

definition empty_listing :: pyval where
  "empty_listing = PDict [(ascii ''shopping_results'', PList [])]"

text \<open>A listing whose entry has a title and no link of either kind.\<close>

definition linkless_listing :: pyval where
  "linkless_listing =
     PDict [(ascii ''shopping_results'',
       PList [PDict [(ascii ''title'', PStr (ascii ''TrailBlazer X''))]])]"

text \<open>A listing whose entry has a direct link and a snippet of 200 characters.\<close>

definition long_listing :: pyval where
  "long_listing =
     PDict [(ascii ''shopping_results'',
       PList [PDict [(ascii ''link'', PStr (ascii ''https://shop.example/x'')),
                     (ascii ''snippet'', PStr (replicate 200 120))]])]"

text \<open>A listing whose entry has a link, and a number where the snippet should be.\<close>

definition malformed_listing :: pyval where
  "malformed_listing =
     PDict [(ascii ''shopping_results'',
       PList [PDict [(ascii ''link'', PStr (ascii ''https://shop.example/x'')),
                     (ascii ''snippet'', PNum 5)]])]"

text \<open>The judge finds the conversation coherent and suggests a product.\<close>

definition shoe_services :: services where
  "shoe_services =
     example_services (Inr [Some (ascii ''ok'')])
       (Inr [Some (ascii '' yes''), Some [10], Some (ascii ''TOPIC: running''), Some [10],
             Some (ascii ''P/S: trail shoes'')])
       (Inr shoe_listing)"

text \<open>The judge finds the conversation coherent and suggests nothing, in capitals.\<close>

definition coherent_none_services :: services where
  "coherent_none_services =
     example_services (Inr [Some (ascii ''ok'')])
       (Inr [Some (ascii '' yes''), Some [10], Some (ascii ''TOPIC: running''), Some [10],
             Some (ascii ''P/S: NONE'')])
       (Inr shoe_listing)"

text \<open>
  The same services with the search down and a console with the encoding ISO-8859-1: a
  lookup then raises, from the print of its handler.
\<close>

definition on_latin1_search_down :: "services \<Rightarrow> services" where
  "on_latin1_search_down sv =
     sv\<lparr>search := (\<lambda>query. Inl (ProviderError ''down'')), console := latin1_console\<rparr>"

text \<open>
  A language model whose judge answers \<open>no\<close> to the request made of the given snapshot
  and fails on every other request.
\<close>

definition expecting_llm :: "pystr \<Rightarrow> llm_service" where
  "expecting_llm snapshot =
     (\<lambda>messages temperature max_tokens.
        if max_tokens = 256 then
          (if messages = [(System, judge_sys_msg), (User, snapshot @ [10] @ ascii ''RELATED:'')]
           then Inr [Some (ascii ''no'')]
           else Inl (ProviderError ''another snapshot''))
        else Inr [Some (ascii ''ok'')])"

definition expecting_services :: "pystr \<Rightarrow> services" where
  "expecting_services snapshot =
     \<lparr>llm = expecting_llm snapshot, search = (\<lambda>query. Inl (ProviderError ''down'')),
      console = accepting_console, str_other = (\<lambda>v. ascii ''?''),
      str_error = (\<lambda>e. ascii ''?'')\<rparr>"

section \<open>Evaluation of the string functions\<close>

lemma ascii_simps:
  "ascii ''yes'' = [121, 101, 115]"
  "ascii '' yes'' = [32, 121, 101, 115]"
  "ascii ''no'' = [110, 111]"
  "ascii ''ok'' = [111, 107]"
  "ascii ''none'' = [110, 111, 110, 101]"
  "ascii ''None'' = [78, 111, 110, 101]"
  "ascii ''NONE'' = [78, 79, 78, 69]"
  "ascii ''TOPIC'' = [84, 79, 80, 73, 67]"
  "ascii ''Q: '' = [81, 58, 32]"
  "ascii ''A: '' = [65, 58, 32]"
  by (simp_all add: ascii_def)

lemmas string_defs = strip_def lstrip_def rstrip_def isspace_def lower_def lower_cp_def
  endswith_def splitlines_def is_linebreak_def split_colon1_def

lemmas verdict_defs = parse_verdict_def after_colon_def item_at_def

lemma parse_verdict_no:
  "parse_verdict (ascii ''no'') = Inr (False, ascii ''None'', ascii ''None'')"
  by (simp add: verdict_defs string_defs ascii_simps)

section \<open>The parsing when the lines have their colons\<close>

text \<open>What the parsing does when it does not raise.\<close>

lemma after_colon_with_colon:
  "58 \<in> set line \<Longrightarrow> after_colon line = Inr (strip (tl (dropWhile (\<lambda>c. c \<noteq> 58) line)))"
  by (simp add: after_colon_def split_colon1_def item_at_def)

lemma after_colon_without_colon: "58 \<notin> set line \<Longrightarrow> after_colon line = Inl IndexError"
  by (simp add: after_colon_def split_colon1_def item_at_def)

lemma parse_verdict_short:
  assumes "length (splitlines raw) \<le> 1"
  shows "parse_verdict raw =
     Inr (splitlines raw \<noteq> [] \<and> endswith (lower (strip (splitlines raw ! 0))) (ascii ''yes''),
          ascii ''None'', ascii ''None'')"
  using assms by (simp add: parse_verdict_def Let_def)

lemma parse_verdict_with_colons:
  assumes "1 < length (splitlines raw)" and "58 \<in> set (splitlines raw ! 1)"
    and "2 < length (splitlines raw) \<Longrightarrow> 58 \<in> set (splitlines raw ! 2)"
  shows "\<exists>topic ps. parse_verdict raw =
     Inr (endswith (lower (strip (splitlines raw ! 0))) (ascii ''yes''), topic, ps)"
proof (cases "2 < length (splitlines raw)")
  case True
  with assms show ?thesis
    by (auto simp add: parse_verdict_def Let_def after_colon_with_colon)
next
  case False
  with assms show ?thesis
    by (auto simp add: parse_verdict_def Let_def after_colon_with_colon)
qed

section \<open>What the example services answer\<close>

lemma stream_chat_example_primary:
  "stream_chat (llm (example_services p j f)) ms t GPT_MAX_TOKENS =
     (case p of Inl e \<Rightarrow> Inl e | Inr chunks \<Rightarrow> Inr (strip (join [] (collect_parts chunks))))"
  by (simp add: stream_chat_def example_services_def example_llm_def GPT_MAX_TOKENS_def)

lemma judge_topic_example:
  "judge_topic (llm (example_services p j f)) (console (example_services p j f)) snap =
     (case j of Inl e \<Rightarrow> Inl e | Inr chunks \<Rightarrow> parse_verdict (strip (join [] (collect_parts chunks))))"
  by (simp add: judge_topic_def stream_chat_def example_services_def example_llm_def py_print_def
      accepting_console_def split: sum.splits)

lemma primary_plain: "stream_chat (llm plain_services) ms t GPT_MAX_TOKENS = Inr (ascii ''ok'')"
  by (simp add: plain_services_def stream_chat_example_primary string_defs ascii_simps)

lemma primary_failing:
  "stream_chat (llm failing_services) ms t GPT_MAX_TOKENS = Inl (ProviderError ''timeout'')"
  by (simp add: failing_services_def stream_chat_example_primary)

lemma primary_truncated_judge:
  "stream_chat (llm truncated_judge_services) ms t GPT_MAX_TOKENS = Inr (ascii ''ok'')"
  by (simp add: truncated_judge_services_def stream_chat_example_primary string_defs ascii_simps)

lemma primary_judge_down:
  "stream_chat (llm judge_down_services) ms t GPT_MAX_TOKENS = Inr (ascii ''ok'')"
  by (simp add: judge_down_services_def stream_chat_example_primary string_defs ascii_simps)

lemma judge_plain: "judge_topic (llm plain_services) (console plain_services) snap = Inr (False, ascii ''None'', ascii ''None'')"
  unfolding plain_services_def judge_topic_example
  by (simp add: verdict_defs string_defs ascii_simps)

lemma judge_truncated: "judge_topic (llm truncated_judge_services) (console truncated_judge_services) snap = Inl IndexError"
  unfolding truncated_judge_services_def judge_topic_example
  by (simp add: verdict_defs string_defs ascii_simps)

lemma judge_down: "judge_topic (llm judge_down_services) (console judge_down_services) snap = Inl (ProviderError ''timeout'')"
  unfolding judge_down_services_def judge_topic_example by simp

section \<open>One call, case by case\<close>

lemma chat_primary_raises:
  assumes "stream_chat (llm sv) (chat_messages (buffer (append_question st m)) m) (7 / 10)
             GPT_MAX_TOKENS = Inl e"
  shows "chat sv st m =
           \<lparr>result = Inl e, after = append_question st m, judged = None, searched = None\<rparr>"
  using assms by (simp add: chat_def Let_def)

lemma chat_no_trigger:
  assumes "stream_chat (llm sv) (chat_messages (buffer (append_question st m)) m) (7 / 10)
             GPT_MAX_TOKENS = Inr answer"
    and "msg_cnt st + 1 \<noteq> TRIGGER_QS"
  shows "chat sv st m =
     \<lparr>result = Inr answer,
      after = \<lparr>buffer = buffer (append_question st m) @ [ascii ''A: '' @ answer],
               msg_cnt = msg_cnt st + 1\<rparr>,
      judged = None, searched = None\<rparr>"
  using assms by (simp add: chat_def Let_def append_question_def)

lemma chat_judge_raises:
  assumes "stream_chat (llm sv) (chat_messages (buffer (append_question st m)) m) (7 / 10)
             GPT_MAX_TOKENS = Inr answer"
    and "msg_cnt st + 1 = TRIGGER_QS"
    and "judge_topic (llm sv) (console sv)
           (join [10] (last_n SNAPSHOT_LINES (buffer (append_question st m)))) = Inl e"
  shows "chat sv st m =
     \<lparr>result = Inl e, after = append_question st m,
      judged = Some (join [10] (last_n SNAPSHOT_LINES (buffer (append_question st m)))),
      searched = None\<rparr>"
  using assms by (simp add: chat_def Let_def append_question_def)

lemma chat_declined:
  assumes "stream_chat (llm sv) (chat_messages (buffer (append_question st m)) m) (7 / 10)
             GPT_MAX_TOKENS = Inr answer"
    and "msg_cnt st + 1 = TRIGGER_QS"
    and "judge_topic (llm sv) (console sv)
           (join [10] (last_n SNAPSHOT_LINES (buffer (append_question st m)))) =
         Inr (related, topic, ps)"
    and "\<not> (related \<and> lower ps \<noteq> ascii ''none'')"
  shows "chat sv st m =
     \<lparr>result = Inr answer,
      after = \<lparr>buffer = buffer (append_question st m) @ [ascii ''A: '' @ answer], msg_cnt = 0\<rparr>,
      judged = Some (join [10] (last_n SNAPSHOT_LINES (buffer (append_question st m)))),
      searched = None\<rparr>"
  using assms by (auto simp add: chat_def Let_def append_question_def)

lemma chat_looked_up:
  assumes "stream_chat (llm sv) (chat_messages (buffer (append_question st m)) m) (7 / 10)
             GPT_MAX_TOKENS = Inr answer"
    and "msg_cnt st + 1 = TRIGGER_QS"
    and "judge_topic (llm sv) (console sv)
           (join [10] (last_n SNAPSHOT_LINES (buffer (append_question st m)))) =
         Inr (related, topic, ps)"
    and "related" and "lower ps \<noteq> ascii ''none''"
    and "shopping_search (search sv) (console sv) (str_error sv) ps = Inr product"
  shows "chat sv st m =
     (let answer2 = (case product of
                       None \<Rightarrow> answer
                     | Some p \<Rightarrow> answer @ ad_suffix sv topic p)
      in \<lparr>result = Inr answer2,
          after = \<lparr>buffer = buffer (append_question st m) @ [ascii ''A: '' @ answer2], msg_cnt = 0\<rparr>,
          judged = Some (join [10] (last_n SNAPSHOT_LINES (buffer (append_question st m)))),
          searched = Some ps\<rparr>)"
  using assms by (simp add: chat_def Let_def append_question_def)

lemma chat_lookup_raises:
  assumes "stream_chat (llm sv) (chat_messages (buffer (append_question st m)) m) (7 / 10)
             GPT_MAX_TOKENS = Inr answer"
    and "msg_cnt st + 1 = TRIGGER_QS"
    and "judge_topic (llm sv) (console sv)
           (join [10] (last_n SNAPSHOT_LINES (buffer (append_question st m)))) =
         Inr (related, topic, ps)"
    and "related" and "lower ps \<noteq> ascii ''none''"
    and "shopping_search (search sv) (console sv) (str_error sv) ps = Inl e"
  shows "chat sv st m =
     \<lparr>result = Inl e, after = append_question st m,
      judged = Some (join [10] (last_n SNAPSHOT_LINES (buffer (append_question st m)))),
      searched = Some ps\<rparr>"
  using assms by (simp add: chat_def Let_def append_question_def)

text \<open>What every call satisfies.\<close>

lemma chat_cases:
  obtains
    (primary_raised) e where "chat sv st m =
        \<lparr>result = Inl e, after = append_question st m, judged = None, searched = None\<rparr>"
  | (trigger_raised) e snap q where "msg_cnt st + 1 = TRIGGER_QS" "chat sv st m =
        \<lparr>result = Inl e, after = append_question st m, judged = Some snap, searched = q\<rparr>"
  | (no_trigger) answer where "msg_cnt st + 1 \<noteq> TRIGGER_QS" "chat sv st m =
        \<lparr>result = Inr answer,
         after = \<lparr>buffer = buffer (append_question st m) @ [ascii ''A: '' @ answer],
                  msg_cnt = msg_cnt st + 1\<rparr>,
         judged = None, searched = None\<rparr>"
  | (trigger) answer snap q where "msg_cnt st + 1 = TRIGGER_QS" "chat sv st m =
        \<lparr>result = Inr answer,
         after = \<lparr>buffer = buffer (append_question st m) @ [ascii ''A: '' @ answer], msg_cnt = 0\<rparr>,
         judged = Some snap, searched = q\<rparr>"
proof (cases "stream_chat (llm sv) (chat_messages (buffer (append_question st m)) m) (7 / 10)
             GPT_MAX_TOKENS")
  case (Inl e)
  then show ?thesis using primary_raised chat_primary_raises by blast
next
  case (Inr answer)
  note prim = this
  show ?thesis
  proof (cases "msg_cnt st + 1 = TRIGGER_QS")
    case False
    then show ?thesis using no_trigger chat_no_trigger[OF prim] by blast
  next
    case True
    show ?thesis
    proof (cases "judge_topic (llm sv) (console sv)
           (join [10] (last_n SNAPSHOT_LINES (buffer (append_question st m))))")
      case (Inl e)
      then show ?thesis using trigger_raised[OF True] chat_judge_raises[OF prim True] by blast
    next
      case (Inr v)
      obtain related topic ps where v: "v = (related, topic, ps)" by (cases v) auto
      note judge = Inr[unfolded v]
      show ?thesis
      proof (cases "related \<and> lower ps \<noteq> ascii ''none''")
        case False
        then show ?thesis
          using trigger[OF True] chat_declined[OF prim True judge] by blast
      next
        case yes: True
        show ?thesis
        proof (cases "shopping_search (search sv) (console sv) (str_error sv) ps")
          case (Inl e)
          with yes show ?thesis
            using trigger_raised[OF True] chat_lookup_raises[OF prim True judge _ _ Inl] by blast
        next
          case (Inr product)
          with yes show ?thesis
            using trigger[OF True] chat_looked_up[OF prim True judge _ _ Inr]
            by (metis (no_types, lifting))
        qed
      qed
    qed
  qed
qed

section \<open>The buffer\<close>

lemma rev_last_n: "rev (last_n n xs) = take n (rev xs)"
proof (cases "n \<le> length xs")
  case True
  then show ?thesis by (simp add: last_n_def rev_drop)
next
  case False
  then show ?thesis by (simp add: last_n_def)
qed

lemma length_last_n: "length (last_n n xs) = min n (length xs)"
  by (simp add: last_n_def)

lemma buffer_append_question:
  "buffer (append_question st m) = last_n MAX_BUFFER_SIZE (buffer st @ [ascii ''Q: '' @ m])"
  by (simp add: append_question_def Let_def last_n_def)

lemma msg_cnt_append_question: "msg_cnt (append_question st m) = msg_cnt st + 1"
  by (simp add: append_question_def Let_def)

lemma length_append_question:
  "length (buffer (append_question st m)) = min (length (buffer st) + 1) MAX_BUFFER_SIZE"
  by (simp add: buffer_append_question length_last_n min.commute)

lemma last_append_question: "last (buffer (append_question st m)) = ascii ''Q: '' @ m"
  by (simp add: buffer_append_question last_n_def MAX_BUFFER_SIZE_def)

lemma is_question_Q: "is_question (ascii ''Q: '' @ m)"
  by (simp add: is_question_def ascii_simps)

lemma is_answer_A: "is_answer (ascii ''A: '' @ a)"
  by (simp add: is_answer_def ascii_simps)

lemma answer_not_question: "is_answer l \<Longrightarrow> \<not> is_question l"
  by (auto simp add: is_answer_def is_question_def ascii_simps)

lemma alternating_take: "alternating q xs \<Longrightarrow> alternating q (take n xs)"
proof (induction xs arbitrary: q n)
  case Nil
  then show ?case by simp
next
  case (Cons x xs)
  then show ?case by (cases n) auto
qed

lemma alternating_nth:
  "alternating q xs \<Longrightarrow> i < length xs \<Longrightarrow>
     (if even i = q then is_question (xs ! i) else is_answer (xs ! i))"
proof (induction xs arbitrary: q i)
  case Nil
  then show ?case by simp
next
  case (Cons x xs)
  show ?case
  proof (cases i)
    case 0
    with Cons.prems show ?thesis by (cases q) auto
  next
    case (Suc j)
    with Cons.prems have "alternating (\<not> q) xs" "j < length xs" by auto
    from Cons.IH[OF this] Suc show ?thesis by (cases q) auto
  qed
qed

section \<open>Conversations\<close>

lemma run_append: "run st (xs @ ys) = run st xs @ run (final st xs) ys"
  by (induction xs arbitrary: st) auto

lemma final_append: "final st (xs @ ys) = final (final st xs) ys"
  by (induction xs arbitrary: st) auto

lemma length_run: "length (run st calls) = length calls"
  by (induction calls arbitrary: st) auto

lemma no_raise_Cons: "no_raise (out # outs) = (\<not> isl (result out) \<and> no_raise outs)"
  by (simp add: no_raise_def)

lemma no_raise_Nil: "no_raise []"
  by (simp add: no_raise_def)

lemma no_raise_append: "no_raise (xs @ ys) = (no_raise xs \<and> no_raise ys)"
  by (simp add: no_raise_def)

text \<open>A call that did not raise appended the question, then the answer.\<close>

lemma chat_returned:
  assumes "\<not> isl (result (chat sv st m))"
  obtains answer where
    "result (chat sv st m) = Inr answer"
    "buffer (after (chat sv st m)) = buffer (append_question st m) @ [ascii ''A: '' @ answer]"
    "msg_cnt (after (chat sv st m)) = (if msg_cnt st + 1 = TRIGGER_QS then 0 else msg_cnt st + 1)"
    "(judged (chat sv st m) \<noteq> None) = (msg_cnt st + 1 = TRIGGER_QS)"
  using assms by (cases sv st m rule: chat_cases) auto

text \<open>A call that raised left the question in the buffer and the counter incremented.\<close>

lemma chat_raised:
  assumes "isl (result (chat sv st m))"
  shows "after (chat sv st m) = append_question st m"
  using assms by (cases sv st m rule: chat_cases) auto

lemma length_buffer_returned:
  assumes "\<not> isl (result (chat sv st m))"
  shows "length (buffer (after (chat sv st m))) = min (length (buffer st) + 2) 101"
proof -
  from assms obtain answer where
    "buffer (after (chat sv st m)) = buffer (append_question st m) @ [ascii ''A: '' @ answer]"
    by (rule chat_returned)
  then show ?thesis by (simp add: length_append_question MAX_BUFFER_SIZE_def)
qed

lemma length_buffer_no_raise:
  assumes "no_raise (run st calls)" and "length (buffer st) \<le> 101"
  shows "length (buffer (final st calls)) = min (length (buffer st) + 2 * length calls) 101"
  using assms
proof (induction calls arbitrary: st)
  case Nil
  then show ?case by simp
next
  case (Cons c calls)
  obtain sv m where c: "c = (sv, m)" by (cases c)
  from Cons.prems c have ok: "\<not> isl (result (chat sv st m))"
    and rest: "no_raise (run (after (chat sv st m)) calls)"
    by (simp_all add: no_raise_Cons)
  have len: "length (buffer (after (chat sv st m))) = min (length (buffer st) + 2) 101"
    by (rule length_buffer_returned[OF ok])
  then have "length (buffer (after (chat sv st m))) \<le> 101" by simp
  from Cons.IH[OF rest this] len c show ?case by simp
qed

text \<open>Whatever the calls do, the buffer holds at most 101 lines between calls.\<close>

lemma length_buffer_chat:
  "length (buffer (after (chat sv st m))) \<le> MAX_BUFFER_SIZE + 1"
  by (cases sv st m rule: chat_cases) (simp_all add: length_append_question)

section \<open>Conversations in which no call raises\<close>

lemma settled_init: "settled init"
  by (simp add: settled_def init_def TRIGGER_QS_def)

lemma settled_chat:
  assumes "settled st" and "\<not> isl (result (chat sv st m))"
  shows "settled (after (chat sv st m))"
proof -
  from assms(2) obtain answer where
    buf: "buffer (after (chat sv st m)) = buffer (append_question st m) @ [ascii ''A: '' @ answer]"
    and cnt: "msg_cnt (after (chat sv st m)) = (if msg_cnt st + 1 = TRIGGER_QS then 0 else msg_cnt st + 1)"
    by (rule chat_returned)
  from assms(1) have c: "0 \<le> msg_cnt st" "msg_cnt st < 4"
    and l: "2 * nat (msg_cnt st) \<le> length (buffer st)"
    and a: "alternating False (rev (buffer st))"
    by (simp_all add: settled_def TRIGGER_QS_def)
  have "alternating True (rev (buffer st @ [ascii ''Q: '' @ m]))"
    using a by (simp add: is_question_Q)
  then have "alternating True (rev (buffer (append_question st m)))"
    by (simp only: buffer_append_question rev_last_n alternating_take)
  then have alt: "alternating False (rev (buffer (after (chat sv st m))))"
    by (simp add: buf is_answer_A)
  have len: "length (buffer (after (chat sv st m))) = min (length (buffer st) + 2) 101"
    by (rule length_buffer_returned[OF assms(2)])
  from c l have "2 * nat (msg_cnt (after (chat sv st m))) \<le> length (buffer (after (chat sv st m)))"
    unfolding len cnt by (auto simp add: TRIGGER_QS_def)
  with c alt show ?thesis
    by (auto simp add: settled_def cnt TRIGGER_QS_def)
qed

lemma settled_final:
  assumes "settled st" and "no_raise (run st calls)"
  shows "settled (final st calls)"
  using assms
proof (induction calls arbitrary: st)
  case Nil
  then show ?case by simp
next
  case (Cons c calls)
  obtain sv m where c: "c = (sv, m)" by (cases c)
  with Cons.prems have "\<not> isl (result (chat sv st m))" "no_raise (run (after (chat sv st m)) calls)"
    by (simp_all add: no_raise_Cons)
  with Cons.IH[OF settled_chat[OF Cons.prems(1)]] c show ?case by simp
qed

text \<open>In such a conversation the counter is the number of questions modulo 4.\<close>

lemma msg_cnt_no_raise:
  assumes "no_raise (run st calls)" and "0 \<le> msg_cnt st" and "msg_cnt st < TRIGGER_QS"
  shows "msg_cnt (final st calls) = (msg_cnt st + int (length calls)) mod 4"
  using assms
proof (induction calls arbitrary: st)
  case Nil
  then show ?case by (simp add: TRIGGER_QS_def)
next
  case (Cons c calls)
  obtain sv m where c: "c = (sv, m)" by (cases c)
  with Cons.prems have ok: "\<not> isl (result (chat sv st m))"
    and rest: "no_raise (run (after (chat sv st m)) calls)"
    by (simp_all add: no_raise_Cons)
  from ok obtain answer where
    cnt: "msg_cnt (after (chat sv st m)) = (if msg_cnt st + 1 = TRIGGER_QS then 0 else msg_cnt st + 1)"
    by (rule chat_returned)
  with Cons.prems have b: "0 \<le> msg_cnt (after (chat sv st m))" "msg_cnt (after (chat sv st m)) < TRIGGER_QS"
    by (auto simp add: TRIGGER_QS_def)
  have "msg_cnt (after (chat sv st m)) = (msg_cnt st + 1) mod 4"
    using Cons.prems(2,3) unfolding cnt by (auto simp add: TRIGGER_QS_def)
  with Cons.IH[OF rest b] c show ?case
    by (simp add: mod_add_left_eq add.assoc)
qed

section \<open>Fifty-one answered questions\<close>

lemma plain_never_raises: "\<not> isl (result (chat plain_services st m))"
proof (cases "msg_cnt st + 1 = TRIGGER_QS")
  case True
  show ?thesis
    using chat_declined[OF primary_plain True judge_plain] by simp
next
  case False
  show ?thesis
    using chat_no_trigger[OF primary_plain False] by simp
qed

lemma no_raise_replicate:
  assumes "\<And>st. \<not> isl (result (chat sv st m))"
  shows "no_raise (run st (replicate n (sv, m)))"
  by (induction n arbitrary: st) (simp_all add: no_raise_Nil no_raise_Cons assms)

lemma first_line_of_odd_buffer:
  assumes "settled st" and "odd (length (buffer st))"
  shows "is_answer (buffer st ! 0)"
proof -
  from assms(2) have pos: "0 < length (buffer st)" by (cases "buffer st") auto
  from assms(1) have "alternating False (rev (buffer st))" by (simp add: settled_def)
  from alternating_nth[OF this, of "length (buffer st) - 1"] pos assms(2)
  have "is_answer (rev (buffer st) ! (length (buffer st) - 1))" by simp
  with pos show ?thesis by (simp add: rev_nth)
qed

lemma fifty_one_calls:
  "settled (final init (replicate 51 (plain_services, ascii ''hi'')))"
  "length (buffer (final init (replicate 51 (plain_services, ascii ''hi'')))) = 101"
proof -
  have ok: "no_raise (run init (replicate 51 (plain_services, ascii ''hi'')))"
    by (rule no_raise_replicate) (rule plain_never_raises)
  show "settled (final init (replicate 51 (plain_services, ascii ''hi'')))"
    by (rule settled_final[OF settled_init ok])
  have "length (buffer init) \<le> 101" by (simp add: init_def)
  from length_buffer_no_raise[OF ok this]
  show "length (buffer (final init (replicate 51 (plain_services, ascii ''hi'')))) = 101"
    by (simp add: init_def)
qed

section \<open>Calls with the example services\<close>

lemma chat_plain:
  "chat plain_services st m =
     (if msg_cnt st + 1 = TRIGGER_QS
      then \<lparr>result = Inr (ascii ''ok''),
            after = \<lparr>buffer = buffer (append_question st m) @ [ascii ''A: '' @ ascii ''ok''],
                     msg_cnt = 0\<rparr>,
            judged = Some (join [10] (last_n SNAPSHOT_LINES (buffer (append_question st m)))),
            searched = None\<rparr>
      else \<lparr>result = Inr (ascii ''ok''),
            after = \<lparr>buffer = buffer (append_question st m) @ [ascii ''A: '' @ ascii ''ok''],
                     msg_cnt = msg_cnt st + 1\<rparr>,
            judged = None, searched = None\<rparr>)"
proof (cases "msg_cnt st + 1 = TRIGGER_QS")
  case True
  then show ?thesis
    using chat_declined[OF primary_plain True judge_plain] by simp
next
  case False
  then show ?thesis
    using chat_no_trigger[OF primary_plain False] by simp
qed

lemma chat_failing:
  "chat failing_services st m =
     \<lparr>result = Inl (ProviderError ''timeout''), after = append_question st m,
      judged = None, searched = None\<rparr>"
  by (rule chat_primary_raises[OF primary_failing])

lemma chat_truncated_judge:
  assumes "msg_cnt st + 1 = TRIGGER_QS"
  shows "chat truncated_judge_services st m =
     \<lparr>result = Inl IndexError, after = append_question st m,
      judged = Some (join [10] (last_n SNAPSHOT_LINES (buffer (append_question st m)))),
      searched = None\<rparr>"
  by (rule chat_judge_raises[OF primary_truncated_judge assms judge_truncated])

lemma chat_judge_down:
  assumes "msg_cnt st + 1 = TRIGGER_QS"
  shows "chat judge_down_services st m =
     \<lparr>result = Inl (ProviderError ''timeout''), after = append_question st m,
      judged = Some (join [10] (last_n SNAPSHOT_LINES (buffer (append_question st m)))),
      searched = None\<rparr>"
  by (rule chat_judge_raises[OF primary_judge_down assms judge_down])

lemma msg_cnt_three_plain:
  "msg_cnt (final init (replicate 3 (plain_services, ascii ''hi''))) = 3"
proof -
  have ok: "no_raise (run init (replicate 3 (plain_services, ascii ''hi'')))"
    by (rule no_raise_replicate) (rule plain_never_raises)
  have "0 \<le> msg_cnt init" "msg_cnt init < TRIGGER_QS"
    by (simp_all add: init_def TRIGGER_QS_def)
  from msg_cnt_no_raise[OF ok this] show ?thesis by (simp add: init_def)
qed

section \<open>The counter and the trigger\<close>

text \<open>Once the counter has passed the trigger period, no later call evaluates the trigger.\<close>

lemma no_trigger_past_period:
  assumes "TRIGGER_QS \<le> msg_cnt st"
  shows "judged (chat sv st m) = None \<and> msg_cnt (after (chat sv st m)) = msg_cnt st + 1"
  using assms
  by (cases sv st m rule: chat_cases) (simp_all add: msg_cnt_append_question)

lemma never_again_past_period:
  assumes "TRIGGER_QS \<le> msg_cnt st"
  shows "list_all (\<lambda>out. judged out = None) (run st calls)"
  using assms
proof (induction calls arbitrary: st)
  case Nil
  then show ?case by simp
next
  case (Cons c calls)
  obtain sv m where c: "c = (sv, m)" by (cases c)
  from no_trigger_past_period[OF Cons.prems, of sv m]
  have "judged (chat sv st m) = None" "TRIGGER_QS \<le> msg_cnt (after (chat sv st m))"
    using Cons.prems by simp_all
  with Cons.IH c show ?case by simp
qed

lemma run_take: "run st (take i calls) = take i (run st calls)"
proof (induction calls arbitrary: st i)
  case Nil
  then show ?case by simp
next
  case (Cons c calls)
  obtain sv m where c: "c = (sv, m)" by (cases c)
  then show ?case using Cons.IH by (cases i) auto
qed

lemma run_nth:
  "i < length calls \<Longrightarrow>
     run st calls ! i = chat (fst (calls ! i)) (final st (take i calls)) (snd (calls ! i))"
proof (induction calls arbitrary: st i)
  case Nil
  then show ?case by simp
next
  case (Cons c calls)
  obtain sv m where c: "c = (sv, m)" by (cases c)
  show ?case
  proof (cases i)
    case 0
    with c show ?thesis by simp
  next
    case (Suc j)
    with Cons.prems have "j < length calls" by simp
    from Cons.IH[OF this] Suc c show ?thesis by simp
  qed
qed

lemma no_raise_take: "no_raise outs \<Longrightarrow> no_raise (take i outs)"
  unfolding no_raise_def list_all_iff by (auto dest: in_set_takeD)

lemma no_raise_nth: "no_raise outs \<Longrightarrow> i < length outs \<Longrightarrow> \<not> isl (result (outs ! i))"
  unfolding no_raise_def list_all_length by simp

text \<open>
  In a conversation in which no call raises, the trigger is evaluated on the questions
  4, 8, 12, ... and on no other.
\<close>

lemma trigger_on_multiples_of_4:
  assumes "no_raise (run init calls)" and "i < length calls"
  shows "(judged (run init calls ! i) \<noteq> None) = (4 dvd (i + 1))"
proof -
  obtain sv m where c: "calls ! i = (sv, m)" by (cases "calls ! i")
  have n: "run init calls ! i = chat sv (final init (take i calls)) m"
    using run_nth[OF assms(2), of init] c by simp
  have "no_raise (run init (take i calls))"
    using assms(1) by (simp add: run_take no_raise_take)
  moreover have "0 \<le> msg_cnt init" "msg_cnt init < TRIGGER_QS"
    by (simp_all add: init_def TRIGGER_QS_def)
  ultimately have cnt: "msg_cnt (final init (take i calls)) = int i mod 4"
    using msg_cnt_no_raise[of init "take i calls"] assms(2) by (simp add: init_def)
  have "\<not> isl (result (run init calls ! i))"
    using no_raise_nth[OF assms(1)] assms(2) by (simp add: length_run)
  then have "\<not> isl (result (chat sv (final init (take i calls)) m))" by (simp add: n)
  then obtain answer where
    "(judged (chat sv (final init (take i calls)) m) \<noteq> None) =
       (msg_cnt (final init (take i calls)) + 1 = TRIGGER_QS)"
    by (rule chat_returned)
  then have "(judged (run init calls ! i) \<noteq> None) = (int i mod 4 + 1 = 4)"
    by (simp add: n cnt TRIGGER_QS_def)
  also have "\<dots> = (4 dvd (i + 1))"
    by presburger
  finally show ?thesis .
qed

lemma counter_in_range_when_no_call_raises:
  assumes "no_raise (run init calls)"
  shows "0 \<le> msg_cnt (final init calls) \<and> msg_cnt (final init calls) < TRIGGER_QS"
  using settled_final[OF settled_init assms] by (simp add: settled_def)

lemma msg_cnt_two_plain:
  "msg_cnt (final init (replicate 2 (plain_services, ascii ''hi''))) = 2"
proof -
  have ok: "no_raise (run init (replicate 2 (plain_services, ascii ''hi'')))"
    by (rule no_raise_replicate) (rule plain_never_raises)
  have "0 \<le> msg_cnt init" "msg_cnt init < TRIGGER_QS"
    by (simp_all add: init_def TRIGGER_QS_def)
  from msg_cnt_no_raise[OF ok this] show ?thesis by (simp add: init_def)
qed

lemma judged_when_triggered:
  assumes "stream_chat (llm sv) (chat_messages (buffer (append_question st m)) m) (7 / 10)
             GPT_MAX_TOKENS = Inr answer"
    and "msg_cnt st + 1 = TRIGGER_QS"
  shows "judged (chat sv st m) =
           Some (join [10] (last_n SNAPSHOT_LINES (buffer (append_question st m))))"
  using assms
  by (simp add: chat_def Let_def msg_cnt_append_question split: sum.splits prod.splits)

lemma judged_SomeD:
  assumes "judged (chat sv st m) = Some snap"
  shows "snap = join [10] (last_n SNAPSHOT_LINES (buffer (append_question st m)))"
    and "msg_cnt st + 1 = TRIGGER_QS"
    and "\<exists>answer. stream_chat (llm sv) (chat_messages (buffer (append_question st m)) m) (7 / 10)
             GPT_MAX_TOKENS = Inr answer"
  using assms
  by (auto simp add: chat_def Let_def msg_cnt_append_question split: sum.splits prod.splits if_splits)

lemma primary_shoe: "stream_chat (llm shoe_services) ms t GPT_MAX_TOKENS = Inr (ascii ''ok'')"
  by (simp add: shoe_services_def stream_chat_example_primary string_defs ascii_simps)

lemma primary_coherent_none:
  "stream_chat (llm coherent_none_services) ms t GPT_MAX_TOKENS = Inr (ascii ''ok'')"
  by (simp add: coherent_none_services_def stream_chat_example_primary string_defs ascii_simps)

lemma judge_shoe:
  "judge_topic (llm shoe_services) (console shoe_services) snap = Inr (True, ascii ''running'', ascii ''trail shoes'')"
  unfolding shoe_services_def judge_topic_example
  by (simp add: verdict_defs string_defs ascii_def)

lemma judge_coherent_none:
  "judge_topic (llm coherent_none_services) (console coherent_none_services) snap = Inr (True, ascii ''running'', ascii ''NONE'')"
  unfolding coherent_none_services_def judge_topic_example
  by (simp add: verdict_defs string_defs ascii_def)

lemma primary_shoe_latin1:
  "stream_chat (llm (on_latin1_search_down shoe_services)) ms t GPT_MAX_TOKENS = Inr (ascii ''ok'')"
  using primary_shoe by (simp add: on_latin1_search_down_def)

lemma primary_coherent_none_latin1:
  "stream_chat (llm (on_latin1_search_down coherent_none_services)) ms t GPT_MAX_TOKENS =
     Inr (ascii ''ok'')"
  using primary_coherent_none by (simp add: on_latin1_search_down_def)

lemma judge_shoe_latin1:
  "judge_topic (llm (on_latin1_search_down shoe_services))
     (console (on_latin1_search_down shoe_services)) snap =
   Inr (True, ascii ''running'', ascii ''trail shoes'')"
  by (simp add: on_latin1_search_down_def shoe_services_def example_services_def example_llm_def
      judge_topic_def stream_chat_def py_print_def latin1_console_def judge_debug_text_def
      verdict_defs string_defs ascii_def)

lemma judge_coherent_none_latin1:
  "judge_topic (llm (on_latin1_search_down coherent_none_services))
     (console (on_latin1_search_down coherent_none_services)) snap =
   Inr (True, ascii ''running'', ascii ''NONE'')"
  by (simp add: on_latin1_search_down_def coherent_none_services_def example_services_def
      example_llm_def judge_topic_def stream_chat_def py_print_def latin1_console_def
      judge_debug_text_def verdict_defs string_defs ascii_def)

section \<open>The lines of the snapshot\<close>

lemma alternating_append:
  "alternating q (xs @ ys) =
     (alternating q xs \<and> alternating (if even (length xs) then q else \<not> q) ys)"
  by (induction xs arbitrary: q) auto

lemma alternating_rev:
  "alternating q (rev xs) = alternating (if odd (length xs) then q else \<not> q) xs"
proof (induction xs arbitrary: q)
  case Nil
  then show ?case by simp
next
  case (Cons x xs)
  show ?case
  proof (cases "even (length xs)")
    case True
    then show ?thesis using Cons.IH[of q] by (auto simp add: alternating_append)
  next
    case False
    then show ?thesis using Cons.IH[of q] by (auto simp add: alternating_append)
  qed
qed

lemma alternating_rev_odd:
  assumes "alternating q (rev xs)" and "odd (length xs)"
  shows "alternating q xs"
  using assms by (simp add: alternating_rev)

lemma marked_Q: "marked (ascii ''Q: '' @ m)"
  by (simp add: marked_def is_question_Q)

lemma marked_A: "marked (ascii ''A: '' @ a)"
  by (simp add: marked_def is_answer_A)

lemma list_all_drop: "list_all P xs \<Longrightarrow> list_all P (drop n xs)"
  unfolding list_all_iff by (auto dest: in_set_dropD)

lemma marked_append_question:
  assumes "list_all marked (buffer st)"
  shows "list_all marked (buffer (append_question st m))"
  using assms
  by (simp add: buffer_append_question last_n_def list_all_drop marked_Q)

lemma marked_chat:
  assumes "list_all marked (buffer st)"
  shows "list_all marked (buffer (after (chat sv st m)))"
  using marked_append_question[OF assms, of m]
  by (cases sv st m rule: chat_cases) (simp_all add: marked_A)

lemma marked_final:
  assumes "list_all marked (buffer st)"
  shows "list_all marked (buffer (final st calls))"
  using assms
proof (induction calls arbitrary: st)
  case Nil
  then show ?case by simp
next
  case (Cons c calls)
  obtain sv m where c: "c = (sv, m)" by (cases c)
  from Cons.IH[OF marked_chat[OF Cons.prems]] c show ?case by simp
qed

lemma marked_reachable: "list_all marked (buffer (final init calls))"
  by (rule marked_final) (simp add: init_def)

lemma last_last_n: "0 < n \<Longrightarrow> xs \<noteq> [] \<Longrightarrow> last (last_n n xs) = last xs"
  by (simp add: last_n_def)

lemma ascii_lines:
  "ascii ''Q: q1'' = ascii ''Q: '' @ ascii ''q1''"
  "ascii ''Q: q2'' = ascii ''Q: '' @ ascii ''q2''"
  "ascii ''Q: q3'' = ascii ''Q: '' @ ascii ''q3''"
  "ascii ''Q: q4'' = ascii ''Q: '' @ ascii ''q4''"
  "ascii ''A: ok'' = ascii ''A: '' @ ascii ''ok''"
  by (simp_all add: ascii_def)

lemma buffer_append_question_short:
  assumes "length (buffer st) < MAX_BUFFER_SIZE"
  shows "buffer (append_question st m) = buffer st @ [ascii ''Q: '' @ m]"
  using assms by (simp add: append_question_def Let_def)

section \<open>The steps of the lookup\<close>

lemma and_then_Inl: "and_then (Inl e) f = Inl e"
  by (simp add: and_then_def)

lemma and_then_Inr: "and_then (Inr x) f = f x"
  by (simp add: and_then_def)

lemma and_then_eq_Inr:
  "(and_then r f = Inr y) = (\<exists>x. r = Inr x \<and> f x = Inr y)"
  by (cases r) (simp_all add: and_then_def)

lemma dict_get_eq_Inr:
  "(dict_get item key dflt = Inr v) =
     (\<exists>kvs. item = PDict kvs \<and> v = (case map_of kvs key of None \<Rightarrow> dflt | Some w \<Rightarrow> w))"
  by (cases item) (auto split: option.splits)

lemma field_PDict:
  "field (PDict kvs) key = (case map_of kvs key of None \<Rightarrow> PNone | Some v \<Rightarrow> v)"
  by (simp add: field_def)

lemma dict_get_None: "dict_get (PDict kvs) key PNone = Inr (field (PDict kvs) key)"
  by (simp add: field_def split: option.splits)

text \<open>On a dict, \<open>get(k1) or get(k2) or ""\<close> is the first truthy of the two fields.\<close>

lemma get_or2_PDict:
  "get_or2 (PDict kvs) k1 k2 =
     Inr (py_or (py_or (field (PDict kvs) k1) (field (PDict kvs) k2)) (PStr []))"
  unfolding get_or2_def dict_get_None and_then_Inr by (simp add: py_or_def)

lemma get_or2_eq_Inr:
  "(get_or2 item k1 k2 = Inr v) =
     (\<exists>kvs. item = PDict kvs
        \<and> v = py_or (py_or (field item k1) (field item k2)) (PStr []))"
proof (cases item)
  case (PDict kvs)
  then show ?thesis by (auto simp add: get_or2_PDict)
qed (simp_all add: get_or2_def and_then_def)

lemma slice160_eq_PStr:
  "(slice160 v = Inr (PStr c)) = (\<exists>s. v = PStr s \<and> c = take 160 s)"
  by (cases v) auto

lemma add_ellipsis_eq_Inr:
  "(add_ellipsis v = Inr d) = (\<exists>c. v = PStr c \<and> d = c @ [ELLIPSIS])"
  by (cases v) auto

lemma endswith_snoc: "endswith (xs @ [c]) [c]"
  by (simp add: endswith_def)

text \<open>The two prints of the lookup.\<close>

lemma py_print_accepted: "out (text @ [10]) = None \<Longrightarrow> py_print out text = Inr ()"
  by (simp add: py_print_def)

lemma py_print_rejected: "out (text @ [10]) = Some e \<Longrightarrow> py_print out text = Inl e"
  by (simp add: py_print_def)

lemma shopping_search_Some_from_try:
  "shopping_search service out exc_text query = Inr (Some p) \<Longrightarrow>
     shopping_search_try service query = Inr (Some p)"
  by (auto simp add: shopping_search_def and_then_def split: sum.splits)

text \<open>When the console writes every text, an exception of the body becomes \<open>None\<close>.\<close>

lemma shopping_search_quiet:
  assumes "\<And>text. out text = None"
  shows "shopping_search service out exc_text query =
           Inr (case shopping_search_try service query of Inl e \<Rightarrow> None | Inr r \<Rightarrow> r)"
  by (simp add: shopping_search_def and_then_def py_print_def assms split: sum.splits)

text \<open>What a returned record is made of.\<close>

lemma shopping_search_SomeD:
  assumes "shopping_search service out exc_text query = Inr (Some p)"
  obtains results kvs src where
    "service query = Inr results"
    "first_entry results = Inr (PDict kvs)"
    "link p = py_or (py_or (field (PDict kvs) (ascii ''link''))
                (field (PDict kvs) (ascii ''product_link''))) (PStr [])"
    "truthy (link p)"
    "name p = (case map_of kvs (ascii ''title'') of None \<Rightarrow> PStr [] | Some v \<Rightarrow> v)"
    "py_or (py_or (field (PDict kvs) (ascii ''snippet''))
                (field (PDict kvs) (ascii ''description''))) (PStr []) = PStr src"
    "desc p = take 160 src @ [ELLIPSIS]"
proof -
  from assms have t: "shopping_search_try service query = Inr (Some p)"
    by (rule shopping_search_Some_from_try)
  then obtain results item lnk where
    r: "service query = Inr results" and fe: "first_entry results = Inr item"
    and l: "get_or2 item (ascii ''link'') (ascii ''product_link'') = Inr lnk"
    and rest: "(if truthy lnk then
       and_then (dict_get item (ascii ''title'') (PStr [])) (\<lambda>title.
       and_then (get_or2 item (ascii ''snippet'') (ascii ''description'')) (\<lambda>src.
       and_then (slice160 src) (\<lambda>cut.
       and_then (add_ellipsis cut) (\<lambda>d.
       Inr (Some \<lparr>name = title, link = lnk, desc = d\<rparr>)))))
     else Inr None) = Inr (Some p)"
    unfolding shopping_search_try_def and_then_eq_Inr by blast
  from rest have tl: "truthy lnk" by (auto split: if_splits)
  with rest have "and_then (dict_get item (ascii ''title'') (PStr [])) (\<lambda>title.
       and_then (get_or2 item (ascii ''snippet'') (ascii ''description'')) (\<lambda>src.
       and_then (slice160 src) (\<lambda>cut.
       and_then (add_ellipsis cut) (\<lambda>d.
       Inr (Some \<lparr>name = title, link = lnk, desc = d\<rparr>))))) = Inr (Some p)"
    by simp
  then obtain title src cut d where
    ti: "dict_get item (ascii ''title'') (PStr []) = Inr title"
    and sr: "get_or2 item (ascii ''snippet'') (ascii ''description'') = Inr src"
    and cu: "slice160 src = Inr cut"
    and ad: "add_ellipsis cut = Inr d"
    and pe: "(Inr (Some \<lparr>name = title, link = lnk, desc = d\<rparr>) :: error + product option) =
               Inr (Some p)"
    unfolding and_then_eq_Inr by blast
  from pe have p: "p = \<lparr>name = title, link = lnk, desc = d\<rparr>" by simp
  from l obtain kvs where item: "item = PDict kvs"
    and lnk: "lnk = py_or (py_or (field item (ascii ''link'')) (field item (ascii ''product_link''))) (PStr [])"
    unfolding get_or2_eq_Inr by blast
  from ad obtain c where cut: "cut = PStr c" and d: "d = c @ [ELLIPSIS]"
    unfolding add_ellipsis_eq_Inr by blast
  from cu cut have "slice160 src = Inr (PStr c)" by simp
  then obtain s where src: "src = PStr s" and c: "c = take 160 s"
    unfolding slice160_eq_PStr by blast
  from sr src item have s: "py_or (py_or (field (PDict kvs) (ascii ''snippet''))
                (field (PDict kvs) (ascii ''description''))) (PStr []) = PStr s"
    by (simp add: get_or2_PDict)
  from ti item have title: "title = (case map_of kvs (ascii ''title'') of None \<Rightarrow> PStr [] | Some v \<Rightarrow> v)"
    by (simp split: option.splits)
  show ?thesis
    by (rule that[OF r fe[unfolded item] _ _ _ s])
      (simp_all add: p lnk[unfolded item] tl[unfolded lnk item] title d c)
qed

lemma truthy_py_or: "truthy (py_or a b) = (truthy a \<or> truthy b)"
  by (simp add: py_or_def)

lemma truthy_link_choice:
  "truthy (py_or (py_or (field item (ascii ''link'')) (field item (ascii ''product_link'')))
     (PStr [])) = usable_link item"
  by (simp add: truthy_py_or usable_link_def)

lemma key_simps:
  "ascii ''title'' = [116, 105, 116, 108, 101]"
  "ascii ''link'' = [108, 105, 110, 107]"
  "ascii ''product_link'' = [112, 114, 111, 100, 117, 99, 116, 95, 108, 105, 110, 107]"
  "ascii ''snippet'' = [115, 110, 105, 112, 112, 101, 116]"
  "ascii ''description'' = [100, 101, 115, 99, 114, 105, 112, 116, 105, 111, 110]"
  by (simp_all add: ascii_def)

text \<open>A field of a listing entry is absent or a string.\<close>

lemma listing_entry_field:
  assumes "listing_entry (PDict kvs)"
    and "key \<in> {ascii ''title'', ascii ''link'', ascii ''product_link'', ascii ''snippet'',
                 ascii ''description''}"
  shows "map_of kvs key = None \<or> (\<exists>s. map_of kvs key = Some (PStr s))"
proof -
  from assms have "case map_of kvs key of None \<Rightarrow> True | Some (PStr s) \<Rightarrow> True | Some _ \<Rightarrow> False"
    by (auto simp add: listing_entry_def)
  then show ?thesis by (auto split: option.splits pyval.splits)
qed

lemma listing_entry_text:
  assumes "listing_entry (PDict kvs)"
    and "k1 \<in> {ascii ''title'', ascii ''link'', ascii ''product_link'', ascii ''snippet'',
                 ascii ''description''}"
    and "k2 \<in> {ascii ''title'', ascii ''link'', ascii ''product_link'', ascii ''snippet'',
                 ascii ''description''}"
  shows "\<exists>s. py_or (py_or (field (PDict kvs) k1) (field (PDict kvs) k2)) (PStr []) = PStr s"
  using listing_entry_field[OF assms(1,2)] listing_entry_field[OF assms(1,3)]
  by (auto simp add: field_PDict py_or_def)

lemma listing_entry_empty: "listing_entry (PDict [])"
  by (simp add: listing_entry_def)

lemma first_entry_PDict:
  "first_entry (PDict kvs) =
     (case map_of kvs (ascii ''shopping_results'') of
        None \<Rightarrow> Inr (PDict [])
      | Some found \<Rightarrow> subscript0 (py_or found (PList [PDict []])))"
  by (simp add: first_entry_def and_then_def py_or_def item_at_def split: option.splits)

text \<open>
  On an expected response the first entry is read without an exception; it is the head
  of the result set, or the empty dict when the result set is empty.
\<close>

lemma first_entry_expected:
  assumes "expected_response (Inr results)"
  shows "first_entry results =
           Inr (case result_entries (Inr results) of [] \<Rightarrow> PDict [] | item # _ \<Rightarrow> item)"
    and "listing_entry (case result_entries (Inr results) of [] \<Rightarrow> PDict [] | item # _ \<Rightarrow> item)"
  using assms
  by (auto simp add: expected_response_def result_entries_def first_entry_PDict py_or_def
      item_at_def listing_entry_empty split: pyval.splits option.splits list.splits)

lemma not_usable_empty: "\<not> usable_link (PDict [])"
  by (simp add: usable_link_def field_def)

text \<open>The body of the \<open>try\<close> on a response whose first entry is a listing entry.\<close>

lemma shopping_search_try_listing_entry:
  assumes "service query = Inr results" and "first_entry results = Inr (PDict kvs)"
    and "listing_entry (PDict kvs)"
  shows "\<exists>r. shopping_search_try service query = Inr r
           \<and> (r = None) = (\<not> usable_link (PDict kvs))"
proof -
  obtain src where src: "get_or2 (PDict kvs) (ascii ''snippet'') (ascii ''description'') =
      Inr (PStr src)"
    using listing_entry_text[OF assms(3), of "ascii ''snippet''" "ascii ''description''"]
    by (auto simp add: get_or2_PDict)
  have "shopping_search_try service query =
      (if usable_link (PDict kvs)
       then Inr (Some \<lparr>name = (case map_of kvs (ascii ''title'') of None \<Rightarrow> PStr [] | Some v \<Rightarrow> v),
              link = py_or (py_or (field (PDict kvs) (ascii ''link''))
                       (field (PDict kvs) (ascii ''product_link''))) (PStr []),
              desc = take 160 src @ [ELLIPSIS]\<rparr>)
       else Inr None)"
    unfolding shopping_search_try_def assms(1,2) and_then_Inr src
    by (simp add: get_or2_PDict and_then_Inr truthy_link_choice split: option.splits)
  then show ?thesis by simp
qed

lemmas lookup_defs = shopping_search_def shopping_search_try_def first_entry_def get_or2_def
  and_then_def py_or_def item_at_def py_print_def accepting_console_def

lemma shopping_search_shoe:
  "shopping_search (\<lambda>q. Inr shoe_listing) accepting_console exc_text query =
     Inr (Some \<lparr>name = PStr (ascii ''TrailBlazer X''),
                link = PStr (ascii ''https://shop.example/tb''),
                desc = ascii ''Light trail shoe'' @ [ELLIPSIS]\<rparr>)"
  by (simp add: lookup_defs shoe_listing_def key_simps) (simp add: ascii_def)

lemma shopping_search_long:
  "shopping_search (\<lambda>q. Inr long_listing) accepting_console exc_text query =
     Inr (Some \<lparr>name = PStr [], link = PStr (ascii ''https://shop.example/x''),
                desc = replicate 160 120 @ [ELLIPSIS]\<rparr>)"
  by (simp add: lookup_defs long_listing_def key_simps) (simp add: ascii_def)

lemma shopping_search_try_malformed:
  "shopping_search_try (\<lambda>q. Inr malformed_listing) query = Inl TypeError"
  by (simp add: lookup_defs malformed_listing_def key_simps) (simp add: ascii_def)

lemma expected_examples:
  "expected_response (Inl (ProviderError ''down''))"
  "expected_response (Inr empty_listing)"
  "expected_response (Inr linkless_listing)"
  "expected_response (Inr shoe_listing)"
  by (simp_all add: expected_response_def empty_listing_def linkless_listing_def shoe_listing_def
      listing_entry_def key_simps)

lemma result_entries_examples:
  "result_entries (Inr empty_listing) = []"
  "result_entries (Inr linkless_listing) = [PDict [(ascii ''title'', PStr (ascii ''TrailBlazer X''))]]"
  by (simp_all add: result_entries_def empty_listing_def linkless_listing_def)

lemma not_usable_linkless:
  "\<not> usable_link (PDict [(ascii ''title'', PStr (ascii ''TrailBlazer X''))])"
  by (simp add: usable_link_def field_def key_simps)

text \<open>
  When the console writes every text the lookup returns, and on the responses the
  interface describes it returns \<open>None\<close> exactly when the provider erred, returned no
  entries, or the first entry has no usable link; the record it returns otherwise is well
  formed.
\<close>

lemma shopping_search_returns_when_printed:
  assumes "\<And>text. out text = None"
  shows "\<exists>r. shopping_search service out exc_text query = Inr r"
  by (simp add: shopping_search_quiet[of out, OF assms])

lemma shopping_search_no_result_exactly_when:
  assumes quiet: "\<And>text. out text = None" and ex: "expected_response (service query)"
  shows "(shopping_search service out exc_text query = Inr None) =
          (isl (service query) \<or> result_entries (service query) = []
           \<or> \<not> usable_link (hd (result_entries (service query))))"
proof (cases "service query")
  case (Inl e)
  then have "shopping_search_try service query = Inl e"
    by (simp add: shopping_search_try_def and_then_Inl)
  with Inl show ?thesis by (simp add: shopping_search_quiet[of out, OF quiet])
next
  case (Inr results)
  define item where
    "item = (case result_entries (Inr results) of [] \<Rightarrow> PDict [] | item # _ \<Rightarrow> item)"
  from first_entry_expected[OF ex[unfolded Inr]]
  have fe: "first_entry results = Inr item" and le: "listing_entry item"
    by (simp_all add: item_def)
  from le obtain kvs where kvs: "item = PDict kvs"
    by (cases item) (simp_all add: listing_entry_def)
  from shopping_search_try_listing_entry[of service query results kvs] Inr fe le
  obtain r where r: "shopping_search_try service query = Inr r"
    and n: "(r = None) = (\<not> usable_link item)"
    by (auto simp add: kvs)
  have "(shopping_search service out exc_text query = Inr None) = (\<not> usable_link item)"
    by (simp add: shopping_search_quiet[of out, OF quiet] r n)
  also have "\<dots> = (result_entries (Inr results) = []
         \<or> \<not> usable_link (hd (result_entries (Inr results))))"
    by (cases "result_entries (Inr results)") (simp_all add: item_def not_usable_empty)
  finally show ?thesis by (simp add: Inr)
qed

lemma shopping_search_record_well_formed:
  assumes ex: "expected_response (service query)"
    and some: "shopping_search service out exc_text query = Inr (Some p)"
  shows "well_formed_product p"
proof -
  from some obtain results kvs src where
    r: "service query = Inr results" and fe: "first_entry results = Inr (PDict kvs)"
    and l: "link p = py_or (py_or (field (PDict kvs) (ascii ''link''))
                (field (PDict kvs) (ascii ''product_link''))) (PStr [])"
    and tl: "truthy (link p)"
    and n: "name p = (case map_of kvs (ascii ''title'') of None \<Rightarrow> PStr [] | Some v \<Rightarrow> v)"
    and d: "desc p = take 160 src @ [ELLIPSIS]"
    by (rule shopping_search_SomeD)
  from first_entry_expected[OF ex[unfolded r]] fe have le: "listing_entry (PDict kvs)"
    by simp
  from listing_entry_text[OF le, of "ascii ''link''" "ascii ''product_link''"] l
  obtain u where u: "link p = PStr u" by auto
  with tl have "u \<noteq> []" by simp
  moreover from listing_entry_field[OF le, of "ascii ''title''"] n
  obtain t where "name p = PStr t" by auto
  ultimately show ?thesis
    by (simp add: well_formed_product_def u d endswith_snoc)
qed

text \<open>
  On a console that writes every text: the four kinds of response, and a malformed one (a
  number as snippet), whose TypeError becomes \<open>None\<close>.
\<close>

lemma shopping_search_on_the_four_responses:
  "shopping_search (\<lambda>q. Inl (ProviderError ''down'')) accepting_console exc_text query = Inr None"
  "shopping_search (\<lambda>q. Inr empty_listing) accepting_console exc_text query = Inr None"
  "shopping_search (\<lambda>q. Inr linkless_listing) accepting_console exc_text query = Inr None"
  "well_formed_product
       \<lparr>name = PStr (ascii ''TrailBlazer X''), link = PStr (ascii ''https://shop.example/tb''),
        desc = ascii ''Light trail shoe'' @ [ELLIPSIS]\<rparr>"
  "shopping_search (\<lambda>q. Inr malformed_listing) accepting_console exc_text query = Inr None"
proof -
  have quiet: "accepting_console t = None" for t
    by (simp add: accepting_console_def)
  show "shopping_search (\<lambda>q. Inl (ProviderError ''down'')) accepting_console exc_text query = Inr None"
    using shopping_search_no_result_exactly_when
      [of accepting_console "\<lambda>q. Inl (ProviderError ''down'')" query exc_text]
      quiet expected_examples(1) by simp
  show "shopping_search (\<lambda>q. Inr empty_listing) accepting_console exc_text query = Inr None"
    using shopping_search_no_result_exactly_when
      [of accepting_console "\<lambda>q. Inr empty_listing" query exc_text]
      quiet expected_examples(2) result_entries_examples(1) by simp
  show "shopping_search (\<lambda>q. Inr linkless_listing) accepting_console exc_text query = Inr None"
    using shopping_search_no_result_exactly_when
      [of accepting_console "\<lambda>q. Inr linkless_listing" query exc_text]
      quiet expected_examples(3) result_entries_examples(2) not_usable_linkless by simp
  show "well_formed_product
       \<lparr>name = PStr (ascii ''TrailBlazer X''), link = PStr (ascii ''https://shop.example/tb''),
        desc = ascii ''Light trail shoe'' @ [ELLIPSIS]\<rparr>"
    using shopping_search_record_well_formed
      [of "\<lambda>q. Inr shoe_listing" query accepting_console exc_text]
      expected_examples(4) shopping_search_shoe[of exc_text query] by simp
  show "shopping_search (\<lambda>q. Inr malformed_listing) accepting_console exc_text query = Inr None"
    by (simp add: shopping_search_quiet[of accepting_console, OF quiet]
        shopping_search_try_malformed)
qed

section \<open>The snapshot in general\<close>

text \<open>
  Whenever the trigger is evaluated, the snapshot is made of the most recent lines of the
  buffer, 7 of them or all when the buffer holds fewer, the just-appended question last,
  each line with its marker; in a conversation in which no call has raised these are 7
  lines, 3 question/answer pairs and the current question. (A line is a buffer entry: the
  text of a turn may itself contain newlines.)
\<close>

lemma snapshot_is_recent_lines:
  assumes "judged (chat sv (final init calls) m) = Some snap"
  shows "snap = join [10] (last_n SNAPSHOT_LINES (buffer (append_question (final init calls) m)))
     \<and> length (last_n SNAPSHOT_LINES (buffer (append_question (final init calls) m))) =
         min 7 (length (buffer (final init calls)) + 1)
     \<and> last (last_n SNAPSHOT_LINES (buffer (append_question (final init calls) m))) =
         ascii ''Q: '' @ m
     \<and> list_all marked (last_n SNAPSHOT_LINES (buffer (append_question (final init calls) m)))
     \<and> (no_raise (run init calls) \<longrightarrow>
          length (last_n SNAPSHOT_LINES (buffer (append_question (final init calls) m))) = 7
          \<and> alternating True (last_n SNAPSHOT_LINES (buffer (append_question (final init calls) m))))"
proof -
  define st where "st = final init calls"
  define ls where "ls = last_n SNAPSHOT_LINES (buffer (append_question st m))"
  from assms have snap: "snap = join [10] ls" and trig: "msg_cnt st + 1 = TRIGGER_QS"
    unfolding st_def ls_def by (rule judged_SomeD)+
  have len: "length ls = min 7 (length (buffer st) + 1)"
    by (simp add: ls_def length_last_n length_append_question SNAPSHOT_LINES_def
        MAX_BUFFER_SIZE_def)
  have ne: "buffer (append_question st m) \<noteq> []"
    using length_append_question[of st m] by (auto simp add: MAX_BUFFER_SIZE_def)
  have lst: "last ls = ascii ''Q: '' @ m"
    unfolding ls_def using last_last_n[OF _ ne, of SNAPSHOT_LINES]
    by (simp add: SNAPSHOT_LINES_def last_append_question)
  have mk: "list_all marked ls"
    unfolding ls_def last_n_def st_def
    by (intro list_all_drop marked_append_question marked_reachable)
  have full: "length ls = 7 \<and> alternating True ls" if ok: "no_raise (run init calls)"
  proof -
    have s: "settled st" unfolding st_def by (rule settled_final[OF settled_init ok])
    with trig have "6 \<le> length (buffer st)" and alt: "alternating False (rev (buffer st))"
      by (simp_all add: settled_def TRIGGER_QS_def)
    with len have l7: "length ls = 7" by simp
    have "alternating True (rev (buffer st @ [ascii ''Q: '' @ m]))"
      using alt by (simp add: is_question_Q)
    then have "alternating True (rev ls)"
      unfolding ls_def
      by (simp only: buffer_append_question rev_last_n alternating_take)
    from alternating_rev_odd[OF this] l7 show ?thesis by simp
  qed
  from snap len lst mk full show ?thesis unfolding ls_def st_def by blast
qed

text \<open>The fourth question of a conversation of answered questions.\<close>

lemma snapshot_of_fourth_question:
  "judged (chat plain_services
      (final init [(plain_services, ascii ''q1''), (plain_services, ascii ''q2''),
                   (plain_services, ascii ''q3'')])
      (ascii ''q4'')) =
     Some (join [10] [ascii ''Q: q1'', ascii ''A: ok'', ascii ''Q: q2'', ascii ''A: ok'',
                      ascii ''Q: q3'', ascii ''A: ok'', ascii ''Q: q4''])
   \<and> alternating True [ascii ''Q: q1'', ascii ''A: ok'', ascii ''Q: q2'', ascii ''A: ok'',
                        ascii ''Q: q3'', ascii ''A: ok'', ascii ''Q: q4'']"
proof -
  define calls where "calls = [(plain_services, ascii ''q1''), (plain_services, ascii ''q2''),
                   (plain_services, ascii ''q3'')]"
  define s1 where "s1 = after (chat plain_services init (ascii ''q1''))"
  define s2 where "s2 = after (chat plain_services s1 (ascii ''q2''))"
  define s3 where "s3 = after (chat plain_services s2 (ascii ''q3''))"
  have f: "final init calls = s3"
    by (simp add: calls_def s1_def s2_def s3_def)
  have s1: "msg_cnt s1 = 1" "buffer s1 = [ascii ''Q: q1'', ascii ''A: ok'']"
    by (simp_all add: s1_def chat_plain buffer_append_question_short init_def TRIGGER_QS_def
        MAX_BUFFER_SIZE_def ascii_lines)
  have s2: "msg_cnt s2 = 2"
    "buffer s2 = [ascii ''Q: q1'', ascii ''A: ok'', ascii ''Q: q2'', ascii ''A: ok'']"
    by (simp_all add: s2_def chat_plain buffer_append_question_short s1 TRIGGER_QS_def
        MAX_BUFFER_SIZE_def ascii_lines)
  have s3: "msg_cnt s3 = 3"
    "buffer s3 = [ascii ''Q: q1'', ascii ''A: ok'', ascii ''Q: q2'', ascii ''A: ok'',
                  ascii ''Q: q3'', ascii ''A: ok'']"
    by (simp_all add: s3_def chat_plain buffer_append_question_short s2 TRIGGER_QS_def
        MAX_BUFFER_SIZE_def ascii_lines)
  have lines: "last_n SNAPSHOT_LINES (buffer (append_question s3 (ascii ''q4''))) =
      [ascii ''Q: q1'', ascii ''A: ok'', ascii ''Q: q2'', ascii ''A: ok'',
       ascii ''Q: q3'', ascii ''A: ok'', ascii ''Q: q4'']"
    by (simp add: buffer_append_question_short s3 MAX_BUFFER_SIZE_def last_n_def
        SNAPSHOT_LINES_def ascii_lines)
  have t: "msg_cnt (final init calls) + 1 = TRIGGER_QS"
    by (simp add: f s3 TRIGGER_QS_def)
  have ok: "no_raise (run init calls)"
    by (simp add: calls_def no_raise_Cons no_raise_Nil plain_never_raises)
  note fact = snapshot_is_recent_lines[OF judged_when_triggered[OF primary_plain t]]
  from fact ok
  have "alternating True (last_n SNAPSHOT_LINES (buffer (append_question (final init calls) (ascii ''q4''))))"
    by blast
  then have a: "alternating True [ascii ''Q: q1'', ascii ''A: ok'', ascii ''Q: q2'', ascii ''A: ok'',
       ascii ''Q: q3'', ascii ''A: ok'', ascii ''Q: q4'']"
    by (simp only: f lines)
  have "judged (chat plain_services (final init calls) (ascii ''q4'')) =
     Some (join [10] [ascii ''Q: q1'', ascii ''A: ok'', ascii ''Q: q2'', ascii ''A: ok'',
                      ascii ''Q: q3'', ascii ''A: ok'', ascii ''Q: q4''])"
    using judged_when_triggered[OF primary_plain t] by (simp only: f lines)
  with a show ?thesis unfolding calls_def by (intro conjI)
qed

text \<open>
  The first question of a conversation fails, the next two are answered: the state
  before the fourth question, and the lines its snapshot is made of.
\<close>

lemma failed_first_question:
  "msg_cnt (final init [(failing_services, ascii ''q1''), (plain_services, ascii ''q2''),
                        (plain_services, ascii ''q3'')]) = 3"
  "buffer (final init [(failing_services, ascii ''q1''), (plain_services, ascii ''q2''),
                       (plain_services, ascii ''q3'')]) =
     [ascii ''Q: q1'', ascii ''Q: q2'', ascii ''A: ok'', ascii ''Q: q3'', ascii ''A: ok'']"
  "last_n SNAPSHOT_LINES (buffer (append_question
        (final init [(failing_services, ascii ''q1''), (plain_services, ascii ''q2''),
                     (plain_services, ascii ''q3'')])
        (ascii ''q4''))) =
     [ascii ''Q: q1'', ascii ''Q: q2'', ascii ''A: ok'',
      ascii ''Q: q3'', ascii ''A: ok'', ascii ''Q: q4'']"
proof -
  define calls where "calls = [(failing_services, ascii ''q1''), (plain_services, ascii ''q2''),
                   (plain_services, ascii ''q3'')]"
  define s1 where "s1 = after (chat failing_services init (ascii ''q1''))"
  define s2 where "s2 = after (chat plain_services s1 (ascii ''q2''))"
  define s3 where "s3 = after (chat plain_services s2 (ascii ''q3''))"
  have f: "final init calls = s3"
    by (simp add: calls_def s1_def s2_def s3_def)
  have s1: "msg_cnt s1 = 1" "buffer s1 = [ascii ''Q: q1'']"
    by (simp_all add: s1_def chat_failing msg_cnt_append_question
        buffer_append_question_short init_def MAX_BUFFER_SIZE_def ascii_lines)
  have s2: "msg_cnt s2 = 2"
    "buffer s2 = [ascii ''Q: q1'', ascii ''Q: q2'', ascii ''A: ok'']"
    by (simp_all add: s2_def chat_plain buffer_append_question_short s1 TRIGGER_QS_def
        MAX_BUFFER_SIZE_def ascii_lines)
  have s3: "msg_cnt s3 = 3"
    "buffer s3 = [ascii ''Q: q1'', ascii ''Q: q2'', ascii ''A: ok'',
                  ascii ''Q: q3'', ascii ''A: ok'']"
    by (simp_all add: s3_def chat_plain buffer_append_question_short s2 TRIGGER_QS_def
        MAX_BUFFER_SIZE_def ascii_lines)
  have lines: "last_n SNAPSHOT_LINES (buffer (append_question s3 (ascii ''q4''))) =
      [ascii ''Q: q1'', ascii ''Q: q2'', ascii ''A: ok'',
       ascii ''Q: q3'', ascii ''A: ok'', ascii ''Q: q4'']"
    by (simp add: buffer_append_question_short s3 MAX_BUFFER_SIZE_def last_n_def
        SNAPSHOT_LINES_def ascii_lines)
  show "msg_cnt (final init [(failing_services, ascii ''q1''), (plain_services, ascii ''q2''),
                        (plain_services, ascii ''q3'')]) = 3"
    using s3(1) unfolding f[symmetric] calls_def .
  show "buffer (final init [(failing_services, ascii ''q1''), (plain_services, ascii ''q2''),
                       (plain_services, ascii ''q3'')]) =
     [ascii ''Q: q1'', ascii ''Q: q2'', ascii ''A: ok'', ascii ''Q: q3'', ascii ''A: ok'']"
    using s3(2) unfolding f[symmetric] calls_def .
  show "last_n SNAPSHOT_LINES (buffer (append_question
        (final init [(failing_services, ascii ''q1''), (plain_services, ascii ''q2''),
                     (plain_services, ascii ''q3'')])
        (ascii ''q4''))) =
     [ascii ''Q: q1'', ascii ''Q: q2'', ascii ''A: ok'',
      ascii ''Q: q3'', ascii ''A: ok'', ascii ''Q: q4'']"
    using lines unfolding f[symmetric] calls_def .
qed

text \<open>The services that expect a snapshot.\<close>

lemma primary_expecting:
  "stream_chat (llm (expecting_services x)) ms t GPT_MAX_TOKENS = Inr (ascii ''ok'')"
  by (simp add: expecting_services_def expecting_llm_def stream_chat_def GPT_MAX_TOKENS_def
      string_defs ascii_simps)

lemma judge_expecting:
  "judge_topic (llm (expecting_services x)) (console (expecting_services x)) snap =
     (if snap = x then Inr (False, ascii ''None'', ascii ''None'')
      else Inl (ProviderError ''another snapshot''))"
proof -
  have "strip (join [] (collect_parts [Some (ascii ''no'')])) = ascii ''no''"
    by (simp add: string_defs ascii_simps)
  then show ?thesis
    by (simp add: expecting_services_def expecting_llm_def judge_topic_def stream_chat_def
        py_print_def accepting_console_def parse_verdict_no)
qed

section \<open>Alternation after the buffer is full\<close>

text \<open>
  Claim C1 says that after any number of turns every buffer line at an even index is a
  user turn and every line at an odd index an assistant turn, the trimming removing
  whole question/answer pairs. The buffer is trimmed to 100 lines after the question is
  appended and before the answer is: the 51st question of a conversation makes 101
  lines, the trimming drops one line, the first question, and leaves its answer at
  index 0. After 51 answered questions the line at index 0 is an answer.
\<close>

theorem first_line_is_answer_after_51_calls:
  "is_answer (buffer (final init (replicate 51 (plain_services, ascii ''hi''))) ! 0)
   \<and> \<not> is_question (buffer (final init (replicate 51 (plain_services, ascii ''hi''))) ! 0)"
proof -
  have "is_answer (buffer (final init (replicate 51 (plain_services, ascii ''hi''))) ! 0)"
    by (rule first_line_of_odd_buffer) (simp_all add: fifty_one_calls)
  then show ?thesis by (simp add: answer_not_question)
qed

section \<open>The parsing of the verdict\<close>

text \<open>
  Claim C2 says that the parsing of \<open>_judge_topic\<close> never raises, also on a response
  whose lines lack a colon. It does raise: on the response \<open>yes\<close>, newline, \<open>TOPIC\<close>
  (the stream cut after the word, before the colon) line 1 has no colon, so
  \<open>split(":", 1)\<close> returns one element and index 1 raises IndexError.
\<close>

theorem parse_verdict_raises_without_colon:
  "parse_verdict (ascii ''yes'' @ [10] @ ascii ''TOPIC'') = Inl IndexError"
  by (simp add: verdict_defs string_defs ascii_simps)

section \<open>The counter after a failure of the judge\<close>

text \<open>
  Claim C3 says that once the trigger period is reached the counter is reset to zero
  whatever the outcome, and that a failure or a malformed response of the judge surfaces
  no error. The reset of line 170 comes after the call of \<open>_judge_topic\<close>, which is not
  inside a \<open>try\<close>: on the fourth question of a conversation, a judge whose response is
  cut after \<open>TOPIC\<close> makes \<open>chat\<close> raise IndexError, a judge whose request fails
  makes it raise that failure, and in both cases the counter stays at 4.
\<close>

theorem judge_failure_leaves_counter_at_4:
  "result (chat truncated_judge_services
             (final init (replicate 3 (plain_services, ascii ''hi''))) (ascii ''hi'')) = Inl IndexError
   \<and> msg_cnt (after (chat truncated_judge_services
             (final init (replicate 3 (plain_services, ascii ''hi''))) (ascii ''hi''))) = 4
   \<and> result (chat judge_down_services
             (final init (replicate 3 (plain_services, ascii ''hi''))) (ascii ''hi'')) =
       Inl (ProviderError ''timeout'')
   \<and> msg_cnt (after (chat judge_down_services
             (final init (replicate 3 (plain_services, ascii ''hi''))) (ascii ''hi''))) = 4"
proof -
  have "msg_cnt (final init (replicate 3 (plain_services, ascii ''hi''))) + 1 = TRIGGER_QS"
    by (simp add: msg_cnt_three_plain TRIGGER_QS_def)
  from chat_truncated_judge[OF this] chat_judge_down[OF this] show ?thesis
    by (simp add: msg_cnt_append_question msg_cnt_three_plain)
qed

section \<open>The trigger after a failure of the judge\<close>

text \<open>
  Claim C4 says that in every conversation the trigger is evaluated on the questions 4,
  8, 12, ... and never skipped, the counter staying below the trigger period between
  calls. In a conversation of eight questions in which the judge's response to the
  fourth is cut after \<open>TOPIC\<close>, the trigger is evaluated on question 4 and not on
  question 8, and the counter after the calls is 1, 2, ..., 8: line 159 compares the
  counter with the period by equality, so a counter that was not reset never matches
  again.
\<close>

theorem no_trigger_on_question_8_after_judge_failure:
  "map (\<lambda>out. judged out \<noteq> None)
     (run init [(plain_services, ascii ''hi''), (plain_services, ascii ''hi''),
                (plain_services, ascii ''hi''), (truncated_judge_services, ascii ''hi''),
                (plain_services, ascii ''hi''), (plain_services, ascii ''hi''),
                (plain_services, ascii ''hi''), (plain_services, ascii ''hi'')]) =
     [False, False, False, True, False, False, False, False]
   \<and> map (\<lambda>out. msg_cnt (after out))
     (run init [(plain_services, ascii ''hi''), (plain_services, ascii ''hi''),
                (plain_services, ascii ''hi''), (truncated_judge_services, ascii ''hi''),
                (plain_services, ascii ''hi''), (plain_services, ascii ''hi''),
                (plain_services, ascii ''hi''), (plain_services, ascii ''hi'')]) =
     [1, 2, 3, 4, 5, 6, 7, 8]"
proof -
  define hi where "hi = ascii ''hi''"
  define s1 where "s1 = after (chat plain_services init hi)"
  define s2 where "s2 = after (chat plain_services s1 hi)"
  define s3 where "s3 = after (chat plain_services s2 hi)"
  define s4 where "s4 = after (chat truncated_judge_services s3 hi)"
  define s5 where "s5 = after (chat plain_services s4 hi)"
  define s6 where "s6 = after (chat plain_services s5 hi)"
  define s7 where "s7 = after (chat plain_services s6 hi)"
  have c1: "msg_cnt s1 = 1" and j1: "judged (chat plain_services init hi) = None"
    by (simp_all add: s1_def chat_plain init_def TRIGGER_QS_def)
  have c2: "msg_cnt s2 = 2" and j2: "judged (chat plain_services s1 hi) = None"
    by (simp_all add: s2_def chat_plain c1 TRIGGER_QS_def)
  have c3: "msg_cnt s3 = 3" and j3: "judged (chat plain_services s2 hi) = None"
    by (simp_all add: s3_def chat_plain c2 TRIGGER_QS_def)
  have t4: "msg_cnt s3 + 1 = TRIGGER_QS" by (simp add: c3 TRIGGER_QS_def)
  have c4: "msg_cnt s4 = 4" and j4: "judged (chat truncated_judge_services s3 hi) \<noteq> None"
    by (simp_all add: s4_def chat_truncated_judge[OF t4] msg_cnt_append_question c3)
  have c5: "msg_cnt s5 = 5" and j5: "judged (chat plain_services s4 hi) = None"
    by (simp_all add: s5_def chat_plain c4 TRIGGER_QS_def)
  have c6: "msg_cnt s6 = 6" and j6: "judged (chat plain_services s5 hi) = None"
    by (simp_all add: s6_def chat_plain c5 TRIGGER_QS_def)
  have c7: "msg_cnt s7 = 7" and j7: "judged (chat plain_services s6 hi) = None"
    by (simp_all add: s7_def chat_plain c6 TRIGGER_QS_def)
  have c8: "msg_cnt (after (chat plain_services s7 hi)) = 8"
    and j8: "judged (chat plain_services s7 hi) = None"
    by (simp_all add: chat_plain c7 TRIGGER_QS_def)
  have r: "run init [(plain_services, hi), (plain_services, hi), (plain_services, hi),
                (truncated_judge_services, hi), (plain_services, hi), (plain_services, hi),
                (plain_services, hi), (plain_services, hi)] =
       [chat plain_services init hi, chat plain_services s1 hi, chat plain_services s2 hi,
        chat truncated_judge_services s3 hi, chat plain_services s4 hi,
        chat plain_services s5 hi, chat plain_services s6 hi, chat plain_services s7 hi]"
    by (simp add: s1_def s2_def s3_def s4_def s5_def s6_def s7_def)
  show ?thesis
    unfolding hi_def[symmetric] r
    using c1 c2 c3 c4 c5 c6 c7 c8 j1 j2 j3 j4 j5 j6 j7 j8
    by (simp add: s1_def[symmetric] s2_def[symmetric] s3_def[symmetric] s4_def[symmetric]
        s5_def[symmetric] s6_def[symmetric] s7_def[symmetric])
qed

section \<open>The size of the buffer\<close>

text \<open>
  Claim C5 says that the buffer never holds more than \<open>MAX_BUFFER_SIZE\<close> = 100 lines
  after a call, the append of the answer enforcing the bound as the append of the
  question does. Only the append of the question is followed by the trimming (lines 131
  and 132); the answer is appended to a buffer of up to 100 lines (line 173). After 51
  answered questions the buffer holds 101 lines.
\<close>

theorem buffer_holds_101_lines_after_51_calls:
  "length (buffer (final init (replicate 51 (plain_services, ascii ''hi'')))) = 101
   \<and> MAX_BUFFER_SIZE < length (buffer (final init (replicate 51 (plain_services, ascii ''hi''))))"
  by (simp add: fifty_one_calls MAX_BUFFER_SIZE_def)

section \<open>The check of the suggestion\<close>

text \<open>
  Claim C9: on a call that evaluates the trigger and whose judge returns a verdict, the
  product lookup is called, with the suggestion as query, if and only if the verdict is
  coherent and the lowercased suggestion is not \<open>none\<close>. When it is called, what
  \<open>chat\<close> returns is what the lookup gives: its exception, the answer alone when it
  finds nothing, the answer with the recommendation when it finds a product. When it is
  not called, \<open>chat\<close> returns the answer alone whatever the search service and the
  console would do; so it is with the suggestions \<open>None\<close>, \<open>none\<close> and \<open>NONE\<close>. In
  both cases a returned answer is appended to the buffer and the counter reset.
\<close>

theorem lookup_iff_coherent_and_not_none:
  assumes "stream_chat (llm sv) (chat_messages (buffer (append_question st m)) m) (7 / 10)
             GPT_MAX_TOKENS = Inr answer"
    and "msg_cnt st + 1 = TRIGGER_QS"
    and "judge_topic (llm sv) (console sv)
           (join [10] (last_n SNAPSHOT_LINES (buffer (append_question st m)))) =
         Inr (related, topic, ps)"
  shows "result (chat sv st m) =
           (if related \<and> lower ps \<noteq> ascii ''none''
            then (case shopping_search (search sv) (console sv) (str_error sv) ps of
                    Inl e \<Rightarrow> Inl e
                  | Inr None \<Rightarrow> Inr answer
                  | Inr (Some p) \<Rightarrow> Inr (answer @ ad_suffix sv topic p))
            else Inr answer)
     \<and> (ps \<in> {ascii ''None'', ascii ''none'', ascii ''NONE''} \<longrightarrow>
          result (chat sv st m) = Inr answer)
     \<and> (\<forall>a. result (chat sv st m) = Inr a \<longrightarrow>
          after (chat sv st m) =
            \<lparr>buffer = buffer (append_question st m) @ [ascii ''A: '' @ a], msg_cnt = 0\<rparr>)"
proof -
  have none: "lower (ascii ''None'') = ascii ''none''" "lower (ascii ''none'') = ascii ''none''"
    "lower (ascii ''NONE'') = ascii ''none''"
    by (simp_all add: lower_def lower_cp_def ascii_simps)
  show ?thesis
  proof (cases "related \<and> lower ps \<noteq> ascii ''none''")
    case False
    from chat_declined[OF assms False] False show ?thesis by auto
  next
    case True
    then have rel: "related" and ne: "lower ps \<noteq> ascii ''none''" by simp_all
    from ne none have notin: "ps \<notin> {ascii ''None'', ascii ''none'', ascii ''NONE''}" by auto
    show ?thesis
    proof (cases "shopping_search (search sv) (console sv) (str_error sv) ps")
      case (Inl e)
      from chat_lookup_raises[OF assms rel ne Inl] True Inl notin show ?thesis by simp
    next
      case (Inr product)
      from chat_looked_up[OF assms rel ne Inr] True Inr notin show ?thesis
        by (cases product) (simp_all add: Let_def)
    qed
  qed
qed

text \<open>
  On the fourth question of a conversation. With a search that has a product: the
  suggestion \<open>trail shoes\<close> brings the recommendation into the answer, the suggestion
  \<open>NONE\<close> does not. With a search that is down and a console with the encoding
  ISO-8859-1, on which a lookup raises: the suggestion \<open>trail shoes\<close> makes \<open>chat\<close>
  raise, the suggestion \<open>NONE\<close> does not.
\<close>

theorem lookup_for_trail_shoes_not_for_NONE:
  "result (chat shoe_services (final init (replicate 3 (plain_services, ascii ''hi'')))
      (ascii ''hi'')) =
     Inr (ascii ''ok'' @ ad_suffix shoe_services (ascii ''running'')
            \<lparr>name = PStr (ascii ''TrailBlazer X''),
             link = PStr (ascii ''https://shop.example/tb''),
             desc = ascii ''Light trail shoe'' @ [ELLIPSIS]\<rparr>)
   \<and> result (chat coherent_none_services (final init (replicate 3 (plain_services, ascii ''hi'')))
      (ascii ''hi'')) = Inr (ascii ''ok'')
   \<and> result (chat (on_latin1_search_down shoe_services)
      (final init (replicate 3 (plain_services, ascii ''hi''))) (ascii ''hi'')) =
     Inl UnicodeEncodeError
   \<and> result (chat (on_latin1_search_down coherent_none_services)
      (final init (replicate 3 (plain_services, ascii ''hi''))) (ascii ''hi'')) =
     Inr (ascii ''ok'')"
proof -
  define st where "st = final init (replicate 3 (plain_services, ascii ''hi''))"
  have t: "msg_cnt st + 1 = TRIGGER_QS"
    by (simp add: st_def msg_cnt_three_plain TRIGGER_QS_def)
  have ne: "lower (ascii ''trail shoes'') \<noteq> ascii ''none''"
    by (simp add: lower_def lower_cp_def ascii_def)
  have found: "shopping_search (search shoe_services) (console shoe_services)
      (str_error shoe_services) (ascii ''trail shoes'') =
     Inr (Some \<lparr>name = PStr (ascii ''TrailBlazer X''),
             link = PStr (ascii ''https://shop.example/tb''),
             desc = ascii ''Light trail shoe'' @ [ELLIPSIS]\<rparr>)"
    by (simp add: shoe_services_def example_services_def shopping_search_shoe)
  have down: "shopping_search (search (on_latin1_search_down shoe_services))
      (console (on_latin1_search_down shoe_services))
      (str_error (on_latin1_search_down shoe_services)) (ascii ''trail shoes'') =
     Inl UnicodeEncodeError"
    by (simp add: on_latin1_search_down_def shoe_services_def example_services_def
        shopping_search_def shopping_search_try_def and_then_def py_print_def latin1_console_def
        search_debug_text_def shop_err_text_def)
  note shoe = lookup_iff_coherent_and_not_none[OF primary_shoe t judge_shoe, THEN conjunct1]
  note none = lookup_iff_coherent_and_not_none[OF primary_coherent_none t judge_coherent_none,
      THEN conjunct2, THEN conjunct1]
  note shoe_down = lookup_iff_coherent_and_not_none[OF primary_shoe_latin1 t judge_shoe_latin1,
      THEN conjunct1]
  note none_down = lookup_iff_coherent_and_not_none[OF primary_coherent_none_latin1 t
      judge_coherent_none_latin1, THEN conjunct2, THEN conjunct1]
  have 1: "result (chat shoe_services st (ascii ''hi'')) =
     Inr (ascii ''ok'' @ ad_suffix shoe_services (ascii ''running'')
            \<lparr>name = PStr (ascii ''TrailBlazer X''),
             link = PStr (ascii ''https://shop.example/tb''),
             desc = ascii ''Light trail shoe'' @ [ELLIPSIS]\<rparr>)"
    using shoe ne found by simp
  have 2: "result (chat coherent_none_services st (ascii ''hi'')) = Inr (ascii ''ok'')"
    using none by simp
  have 3: "result (chat (on_latin1_search_down shoe_services) st (ascii ''hi'')) =
     Inl UnicodeEncodeError"
    using shoe_down ne down by simp
  have 4: "result (chat (on_latin1_search_down coherent_none_services) st (ascii ''hi'')) =
     Inr (ascii ''ok'')"
    using none_down by simp
  from 1 2 3 4 show ?thesis unfolding st_def by (intro conjI)
qed

section \<open>A failure of the primary generation\<close>

text \<open>
  Claim C10: when the primary text generation raises, \<open>chat\<close> raises that error, the
  question just appended stays in the buffer (as its last line) and the counter stays
  incremented; so the failed question counts: the next call that returns evaluates the
  trigger exactly when the counter before the failed call was two below the period.
\<close>

theorem chat_keeps_question_when_primary_raises:
  assumes "stream_chat (llm sv) (chat_messages (buffer (append_question st m)) m) (7 / 10)
             GPT_MAX_TOKENS = Inl e"
  shows "result (chat sv st m) = Inl e
     \<and> buffer (after (chat sv st m)) = last_n MAX_BUFFER_SIZE (buffer st @ [ascii ''Q: '' @ m])
     \<and> last (buffer (after (chat sv st m))) = ascii ''Q: '' @ m
     \<and> msg_cnt (after (chat sv st m)) = msg_cnt st + 1
     \<and> (\<forall>sv2 m2. \<not> isl (result (chat sv2 (after (chat sv st m)) m2)) \<longrightarrow>
           (judged (chat sv2 (after (chat sv st m)) m2) \<noteq> None) = (msg_cnt st + 2 = TRIGGER_QS))"
proof -
  have c: "chat sv st m =
      \<lparr>result = Inl e, after = append_question st m, judged = None, searched = None\<rparr>"
    by (rule chat_primary_raises[OF assms])
  have "(judged (chat sv2 (append_question st m) m2) \<noteq> None) = (msg_cnt st + 2 = TRIGGER_QS)"
    if "\<not> isl (result (chat sv2 (append_question st m) m2))" for sv2 m2
  proof -
    from that obtain answer where
      "(judged (chat sv2 (append_question st m) m2) \<noteq> None) =
         (msg_cnt (append_question st m) + 1 = TRIGGER_QS)"
      by (rule chat_returned)
    moreover have "msg_cnt (append_question st m) + 1 = msg_cnt st + 2"
      by (simp add: msg_cnt_append_question)
    ultimately show ?thesis by (simp only:)
  qed
  with c show ?thesis
    by (simp add: buffer_append_question[symmetric] last_append_question msg_cnt_append_question)
qed

text \<open>
  After two answered questions a third one fails: the counter is 3, and the next
  question, the third to be answered, evaluates the trigger.
\<close>

theorem failed_third_question_counts:
  "result (chat failing_services (final init (replicate 2 (plain_services, ascii ''hi'')))
             (ascii ''hi'')) = Inl (ProviderError ''timeout'')
   \<and> last (buffer (after (chat failing_services
             (final init (replicate 2 (plain_services, ascii ''hi''))) (ascii ''hi'')))) =
       ascii ''Q: '' @ ascii ''hi''
   \<and> msg_cnt (after (chat failing_services
             (final init (replicate 2 (plain_services, ascii ''hi''))) (ascii ''hi''))) = 3
   \<and> judged (chat plain_services
        (after (chat failing_services
             (final init (replicate 2 (plain_services, ascii ''hi''))) (ascii ''hi'')))
        (ascii ''hi'')) \<noteq> None"
proof -
  define st where "st = final init (replicate 2 (plain_services, ascii ''hi''))"
  have cnt: "msg_cnt st = 2" by (simp add: st_def msg_cnt_two_plain)
  note fact = chat_keeps_question_when_primary_raises[OF primary_failing, of st "ascii ''hi''"]
  from fact have r: "result (chat failing_services st (ascii ''hi'')) = Inl (ProviderError ''timeout'')"
    by (rule conjunct1)
  from fact have l: "last (buffer (after (chat failing_services st (ascii ''hi'')))) =
       ascii ''Q: '' @ ascii ''hi''"
    by blast
  from fact cnt have c: "msg_cnt (after (chat failing_services st (ascii ''hi''))) = 3"
    by simp
  from fact have "\<not> isl (result (chat plain_services (after (chat failing_services st (ascii ''hi'')))
           (ascii ''hi''))) \<longrightarrow>
      (judged (chat plain_services (after (chat failing_services st (ascii ''hi''))) (ascii ''hi''))
         \<noteq> None) = (msg_cnt st + 2 = TRIGGER_QS)"
    by blast
  with plain_never_raises cnt
  have j: "judged (chat plain_services (after (chat failing_services st (ascii ''hi''))) (ascii ''hi''))
         \<noteq> None"
    by (simp add: TRIGGER_QS_def)
  from r l c j show ?thesis unfolding st_def by (intro conjI)
qed

section \<open>The result of the lookup\<close>

text \<open>
  Claim C6 says that \<open>_shopping_search\<close> never raises past its boundary, whatever the
  provider responds. With \<open>DEBUG = True\<close>, as the source has it, the method prints
  before its \<open>try\<close> (line 99) and inside its \<open>except\<close> handler (line 123), and an
  exception of either print leaves the method. On a console with the encoding UTF-8 the
  query that holds the surrogate U+D800 makes the print of line 99 raise
  UnicodeEncodeError, although the provider has a valid entry; on a console with the
  encoding ISO-8859-1 a provider error is caught and the print of the handler, whose
  literal holds U+2011, raises UnicodeEncodeError.
\<close>

theorem shopping_search_raises_when_print_fails:
  "shopping_search (\<lambda>q. Inr shoe_listing) utf8_console (\<lambda>e. ascii ''?'') [55296] =
     Inl UnicodeEncodeError
   \<and> shopping_search (\<lambda>q. Inl (ProviderError ''down'')) latin1_console (\<lambda>e. ascii ''?'')
       (ascii ''trail shoes'') = Inl UnicodeEncodeError"
proof -
  have "py_print utf8_console (search_debug_text [55296]) = Inl UnicodeEncodeError"
    by (simp add: py_print_def utf8_console_def search_debug_text_def)
  then have first: "shopping_search (\<lambda>q. Inr shoe_listing) utf8_console (\<lambda>e. ascii ''?'') [55296] =
     Inl UnicodeEncodeError"
    by (simp add: shopping_search_def and_then_Inl)
  have "py_print latin1_console (search_debug_text (ascii ''trail shoes'')) = Inr ()"
    by (simp add: py_print_def latin1_console_def search_debug_text_def ascii_def)
  moreover have "shopping_search_try (\<lambda>q. Inl (ProviderError ''down'')) (ascii ''trail shoes'') =
      Inl (ProviderError ''down'')"
    by (simp add: shopping_search_try_def and_then_Inl)
  moreover have "py_print latin1_console
      (shop_err_text (\<lambda>e. ascii ''?'') (ProviderError ''down'')) = Inl UnicodeEncodeError"
    by (simp add: py_print_def latin1_console_def shop_err_text_def)
  ultimately have "shopping_search (\<lambda>q. Inl (ProviderError ''down'')) latin1_console
      (\<lambda>e. ascii ''?'') (ascii ''trail shoes'') = Inl UnicodeEncodeError"
    by (simp add: shopping_search_def and_then_Inl and_then_Inr)
  with first show ?thesis by (intro conjI)
qed

section \<open>The description of a product\<close>

text \<open>
  Claim C7: the description of every record \<open>_shopping_search\<close> returns is the source
  description (the snippet, or the long description when the snippet is absent or empty,
  or the empty string) cut to its first 160 characters, with the ellipsis appended
  whether or not anything was cut; it has at most 161 characters and ends with the
  ellipsis.
\<close>

theorem description_is_truncated_with_ellipsis:
  assumes "shopping_search service out exc_text query = Inr (Some p)"
  shows "\<exists>results item src.
      service query = Inr results \<and> first_entry results = Inr item
      \<and> py_or (py_or (field item (ascii ''snippet'')) (field item (ascii ''description'')))
           (PStr []) = PStr src
      \<and> desc p = take 160 src @ [ELLIPSIS]
      \<and> length (desc p) \<le> 161
      \<and> endswith (desc p) [ELLIPSIS]"
proof -
  from assms obtain results kvs src where
    "service query = Inr results" "first_entry results = Inr (PDict kvs)"
    "py_or (py_or (field (PDict kvs) (ascii ''snippet''))
                (field (PDict kvs) (ascii ''description''))) (PStr []) = PStr src"
    "desc p = take 160 src @ [ELLIPSIS]"
    by (rule shopping_search_SomeD)
  moreover from this have "length (desc p) \<le> 161" "endswith (desc p) [ELLIPSIS]"
    by (simp_all add: endswith_snoc)
  ultimately show ?thesis by blast
qed

text \<open>
  A snippet of 200 characters gives a description of 161; a description of 16 characters
  gets the ellipsis all the same.
\<close>

theorem description_of_200_characters_is_cut:
  "shopping_search (\<lambda>q. Inr long_listing) accepting_console (\<lambda>e. ascii ''?'')
      (ascii ''trail shoes'') =
     Inr (Some \<lparr>name = PStr [], link = PStr (ascii ''https://shop.example/x''),
                desc = replicate 160 120 @ [ELLIPSIS]\<rparr>)
   \<and> length (replicate 160 (120::nat) @ [ELLIPSIS]) = 161
   \<and> endswith (replicate 160 120 @ [ELLIPSIS]) [ELLIPSIS]
   \<and> shopping_search (\<lambda>q. Inr shoe_listing) accepting_console (\<lambda>e. ascii ''?'')
       (ascii ''trail shoes'') =
       Inr (Some \<lparr>name = PStr (ascii ''TrailBlazer X''),
                  link = PStr (ascii ''https://shop.example/tb''),
                  desc = ascii ''Light trail shoe'' @ [ELLIPSIS]\<rparr>)
   \<and> endswith (ascii ''Light trail shoe'' @ [ELLIPSIS]) [ELLIPSIS]"
proof -
  note long = description_is_truncated_with_ellipsis[OF shopping_search_long]
  note shoe = description_is_truncated_with_ellipsis[OF shopping_search_shoe]
  from long have "endswith (replicate 160 120 @ [ELLIPSIS]) [ELLIPSIS]" by auto
  moreover from shoe have "endswith (ascii ''Light trail shoe'' @ [ELLIPSIS]) [ELLIPSIS]" by auto
  moreover have "length (replicate 160 (120::nat) @ [ELLIPSIS]) = 161" by simp
  ultimately show ?thesis
    using shopping_search_long[of "\<lambda>e. ascii ''?''" "ascii ''trail shoes''"]
      shopping_search_shoe[of "\<lambda>e. ascii ''?''" "ascii ''trail shoes''"]
    by (intro conjI)
qed

section \<open>The snapshot given to the judge\<close>

text \<open>
  Claim C8 says that whenever the trigger fires the snapshot given to the judge is
  exactly the most recent 7 lines of the buffer, 3 prior question/answer pairs plus the
  current question. A question whose primary generation failed stays in the buffer
  without an answer. When the first question of a conversation fails and the next two
  are answered, the buffer before the fourth question is Q, Q, A, Q, A. On the fourth
  question the request of \<open>_judge_topic\<close> is made of the six lines Q, Q, A, Q, A, Q: a
  judge that answers this request alone lets \<open>chat\<close> return and reset the counter, and a
  judge that answers only the request made of the five lines after the unanswered
  question makes \<open>chat\<close> raise.
\<close>

theorem snapshot_of_six_lines_after_failed_call:
  "buffer (final init [(failing_services, ascii ''q1''), (plain_services, ascii ''q2''),
                       (plain_services, ascii ''q3'')]) =
     [ascii ''Q: q1'', ascii ''Q: q2'', ascii ''A: ok'', ascii ''Q: q3'', ascii ''A: ok'']
   \<and> result (chat
        (expecting_services (join [10] [ascii ''Q: q1'', ascii ''Q: q2'', ascii ''A: ok'',
                                        ascii ''Q: q3'', ascii ''A: ok'', ascii ''Q: q4'']))
        (final init [(failing_services, ascii ''q1''), (plain_services, ascii ''q2''),
                     (plain_services, ascii ''q3'')])
        (ascii ''q4'')) = Inr (ascii ''ok'')
   \<and> msg_cnt (after (chat
        (expecting_services (join [10] [ascii ''Q: q1'', ascii ''Q: q2'', ascii ''A: ok'',
                                        ascii ''Q: q3'', ascii ''A: ok'', ascii ''Q: q4'']))
        (final init [(failing_services, ascii ''q1''), (plain_services, ascii ''q2''),
                     (plain_services, ascii ''q3'')])
        (ascii ''q4''))) = 0
   \<and> result (chat
        (expecting_services (join [10] [ascii ''Q: q2'', ascii ''A: ok'',
                                        ascii ''Q: q3'', ascii ''A: ok'', ascii ''Q: q4'']))
        (final init [(failing_services, ascii ''q1''), (plain_services, ascii ''q2''),
                     (plain_services, ascii ''q3'')])
        (ascii ''q4'')) = Inl (ProviderError ''another snapshot'')"
proof -
  define st where "st = final init [(failing_services, ascii ''q1''),
      (plain_services, ascii ''q2''), (plain_services, ascii ''q3'')]"
  define six where "six = join [10] [ascii ''Q: q1'', ascii ''Q: q2'', ascii ''A: ok'',
      ascii ''Q: q3'', ascii ''A: ok'', ascii ''Q: q4'']"
  define five where "five = join [10] [ascii ''Q: q2'', ascii ''A: ok'',
      ascii ''Q: q3'', ascii ''A: ok'', ascii ''Q: q4'']"
  have buf: "buffer st =
      [ascii ''Q: q1'', ascii ''Q: q2'', ascii ''A: ok'', ascii ''Q: q3'', ascii ''A: ok'']"
    unfolding st_def by (rule failed_first_question(2))
  have "msg_cnt st = 3"
    unfolding st_def by (rule failed_first_question(1))
  then have t: "msg_cnt st + 1 = TRIGGER_QS"
    by (simp add: TRIGGER_QS_def)
  have snap: "join [10] (last_n SNAPSHOT_LINES (buffer (append_question st (ascii ''q4'')))) = six"
    unfolding st_def six_def by (simp only: failed_first_question(3))
  have differ: "six \<noteq> five"
    unfolding six_def five_def by (simp add: ascii_def)
  have j6: "judge_topic (llm (expecting_services six)) (console (expecting_services six))
      (join [10] (last_n SNAPSHOT_LINES (buffer (append_question st (ascii ''q4''))))) =
      Inr (False, ascii ''None'', ascii ''None'')"
    by (simp add: judge_expecting snap)
  have j5: "judge_topic (llm (expecting_services five)) (console (expecting_services five))
      (join [10] (last_n SNAPSHOT_LINES (buffer (append_question st (ascii ''q4''))))) =
      Inl (ProviderError ''another snapshot'')"
    by (simp add: judge_expecting snap differ)
  have c6: "result (chat (expecting_services six) st (ascii ''q4'')) = Inr (ascii ''ok'')"
    "msg_cnt (after (chat (expecting_services six) st (ascii ''q4''))) = 0"
    using chat_declined[OF primary_expecting t j6] by simp_all
  have c5: "result (chat (expecting_services five) st (ascii ''q4'')) =
      Inl (ProviderError ''another snapshot'')"
    using chat_judge_raises[OF primary_expecting t j5] by simp
  from buf c6 c5 show ?thesis unfolding st_def six_def five_def by (intro conjI)
qed

end
